theory Spec2Isabelle
  imports Complex_Main "HOL-Library.Multiset" "HOL-Library.AList" "HOL-Library.Monad_Syntax"
begin

section \<open>The position and cost-basis engine of the stock tracker\<close>

text \<open>
  The three functions of \<^verbatim>\<open>utils/calculations\<close> are embedded here:
  \<^verbatim>\<open>calculatePositions\<close>, \<^verbatim>\<open>calculateTotalProfitLoss\<close> and
  \<^verbatim>\<open>analyzeTradeHistory\<close>, over the interfaces of \<^verbatim>\<open>types/index.ts\<close>.

  Numbers. A TypeScript \<^verbatim>\<open>number\<close> is an IEEE-754 double. The specification speaks
  of decimals, and this development models every \<^verbatim>\<open>number\<close> as an exact rational
  (\<^typ>\<open>rat\<close>): \<open>+\<close>, \<open>-\<close>, \<open>*\<close> and \<open>/\<close> are exact, and there is no rounding, no
  \<^verbatim>\<open>NaN\<close> and no \<^verbatim>\<open>Infinity\<close>. Every division of the source is guarded by
  a test that the divisor is positive, so division by zero never arises. All theorems
  below are statements about the algorithm in exact arithmetic; in doubles they hold up
  to the rounding of each operation.

  Nullable numbers (\<^verbatim>\<open>number | null\<close>) and optional fields are \<^typ>\<open>rat option\<close>.
  For a number \<open>x\<close> that is absent or present, \<^verbatim>\<open>x || 0\<close> is \<open>0\<close> when \<open>x\<close> is
  absent (or zero) and \<open>x\<close> otherwise; for a string, \<^verbatim>\<open>s || t\<close> is \<open>t\<close> exactly when
  \<open>s\<close> is empty.

  Dates. The comparison function of both sorts is
  \<^verbatim>\<open>new Date(a.date).getTime() - new Date(b.date).getTime()\<close>. The built-in parser
  is not part of the repository; it is the parameter \<open>getTime\<close>, from the date string
  to epoch milliseconds. Every date is taken to parse: for an invalid date the parser
  gives \<^verbatim>\<open>NaN\<close>, the comparison is no order any more, and what the sort returns is left
  to the implementation. \<^verbatim>\<open>Array.prototype.sort\<close> is stable, and so is
  \<^const>\<open>sort_key\<close>.

  Maps. A JavaScript \<^verbatim>\<open>Map\<close> iterates in insertion order, and \<^verbatim>\<open>set\<close> on a key
  that is present keeps its place. The two internal maps are association lists, read
  with \<^const>\<open>map_of\<close> and written with \<^const>\<open>AList.update\<close>, which replaces in
  place or appends at the end. The price map is only ever read by key and is a
  partial function.
\<close>

subsection \<open>Data model\<close>

datatype TradeType = Buy | Sell

record Trade =
  trade_id :: string
  stockCode :: string
  stockName :: string
  type :: TradeType
  price :: rat
  quantity :: rat
  date :: string
  commission :: "rat option"
  tags :: "string list option"

text \<open>The record held in \<^verbatim>\<open>positionMap\<close>, one per stock code.\<close>

record PositionData =
  stockCode :: string
  stockName :: string
  totalQuantity :: rat
  totalCost :: rat

record Position =
  stockCode :: string
  stockName :: string
  totalQuantity :: rat
  totalCost :: rat
  averageCost :: rat
  currentPrice :: "rat option"
  marketValue :: "rat option"
  profitLoss :: "rat option"
  profitLossPercent :: "rat option"

text \<open>The result of \<^verbatim>\<open>calculateTotalProfitLoss\<close>.\<close>

record Totals =
  totalCost :: rat
  totalMarketValue :: "rat option"
  totalProfitLoss :: "rat option"
  totalProfitLossPercent :: "rat option"

record AnalysisPoint =
  date :: string
  cost :: rat
  profit :: rat
  cumulativeCost :: rat

text \<open>The record held in \<^verbatim>\<open>stockInventory\<close>, one per stock code.\<close>

record Inventory =
  quantity :: rat
  totalCost :: rat

subsection \<open>calculatePositions\<close>

text \<open>\<^verbatim>\<open>trade.commission || 0\<close>\<close>

definition commissionOr0 :: "Trade \<Rightarrow> rat" where
  "commissionOr0 t = (case Trade.commission t of None \<Rightarrow> 0 | Some c \<Rightarrow> c)"

text \<open>The comparison key of \<^verbatim>\<open>[...trades].sort(...)\<close>.\<close>

definition sortTrades :: "(string \<Rightarrow> int) \<Rightarrow> Trade list \<Rightarrow> Trade list" where
  "sortTrades getTime trades = sort_key (\<lambda>t. getTime (Trade.date t)) trades"

text \<open>
  The body of the first loop, on the record \<^verbatim>\<open>existing\<close>: the buy branch, the sell
  branch with its guard, then the update of the name.
\<close>

definition updateExisting :: "PositionData \<Rightarrow> Trade \<Rightarrow> PositionData" where
  "updateExisting existing trade =
     (let e1 =
        (if Trade.type trade = Buy then
           existing\<lparr> PositionData.totalCost :=
                        PositionData.totalCost existing
                          + (Trade.price trade * Trade.quantity trade + commissionOr0 trade),
                     PositionData.totalQuantity :=
                        PositionData.totalQuantity existing + Trade.quantity trade \<rparr>
         else if PositionData.totalQuantity existing > 0 then
           (let costPerShare =
                  PositionData.totalCost existing / PositionData.totalQuantity existing;
                soldQuantity = min (Trade.quantity trade) (PositionData.totalQuantity existing)
            in existing\<lparr> PositionData.totalCost :=
                           PositionData.totalCost existing - costPerShare * soldQuantity,
                         PositionData.totalQuantity :=
                           PositionData.totalQuantity existing - soldQuantity \<rparr>)
         else existing)
      in e1\<lparr> PositionData.stockName :=
               (if Trade.stockName trade \<noteq> [] then Trade.stockName trade
                else PositionData.stockName e1) \<rparr>)"

text \<open>\<^verbatim>\<open>positionMap.get(key) || { ..., totalQuantity: 0, totalCost: 0 }\<close>\<close>

definition newPositionData :: "Trade \<Rightarrow> PositionData" where
  "newPositionData trade =
     \<lparr> PositionData.stockCode = Trade.stockCode trade,
       PositionData.stockName = Trade.stockName trade,
       PositionData.totalQuantity = 0,
       PositionData.totalCost = 0 \<rparr>"

definition getExisting :: "(string \<times> PositionData) list \<Rightarrow> Trade \<Rightarrow> PositionData" where
  "getExisting positionMap trade =
     (case map_of positionMap (Trade.stockCode trade) of
        Some e \<Rightarrow> e
      | None \<Rightarrow> newPositionData trade)"

text \<open>One iteration of the first loop.\<close>

definition processTrade ::
  "(string \<times> PositionData) list \<Rightarrow> Trade \<Rightarrow> (string \<times> PositionData) list" where
  "processTrade positionMap trade =
     AList.update (Trade.stockCode trade)
       (updateExisting (getExisting positionMap trade) trade) positionMap"

fun processTrades ::
  "(string \<times> PositionData) list \<Rightarrow> Trade list \<Rightarrow> (string \<times> PositionData) list" where
  "processTrades positionMap [] = positionMap"
| "processTrades positionMap (trade # rest) = processTrades (processTrade positionMap trade) rest"

text \<open>
  The body of the second loop after the \<^verbatim>\<open>continue\<close> test. The local variables
  \<^verbatim>\<open>currentPrice\<close>, \<^verbatim>\<open>averageCost\<close>, \<^verbatim>\<open>marketValue\<close>, \<^verbatim>\<open>profitLoss\<close> and
  \<^verbatim>\<open>profitLossPercent\<close> are \<open>cp\<close>, \<open>ac\<close>, \<open>mv\<close>, \<open>pl\<close> and \<open>plp\<close>.
\<close>

definition toPosition :: "(string \<rightharpoonup> rat) \<Rightarrow> string \<Rightarrow> PositionData \<Rightarrow> Position" where
  "toPosition currentPrices code data =
     (let cp = currentPrices code;
          ac = (if PositionData.totalQuantity data > 0
                then PositionData.totalCost data / PositionData.totalQuantity data else 0);
          mv = (case cp of None \<Rightarrow> None
                | Some p \<Rightarrow> Some (p * PositionData.totalQuantity data));
          pl = (case mv of None \<Rightarrow> None
                | Some m \<Rightarrow> Some (m - PositionData.totalCost data));
          plp = (case pl of None \<Rightarrow> None
                 | Some l \<Rightarrow>
                     Some (if PositionData.totalCost data > 0
                           then (l / PositionData.totalCost data) * 100 else 0))
      in \<lparr> Position.stockCode = code,
           Position.stockName = PositionData.stockName data,
           Position.totalQuantity = PositionData.totalQuantity data,
           Position.totalCost = PositionData.totalCost data,
           Position.averageCost = ac,
           Position.currentPrice = cp,
           Position.marketValue = mv,
           Position.profitLoss = pl,
           Position.profitLossPercent = plp \<rparr>)"

fun emitPositions ::
  "(string \<rightharpoonup> rat) \<Rightarrow> (string \<times> PositionData) list \<Rightarrow> Position list" where
  "emitPositions currentPrices [] = []"
| "emitPositions currentPrices ((code, data) # rest) =
     (if PositionData.totalQuantity data \<le> 0 then emitPositions currentPrices rest
      else toPosition currentPrices code data # emitPositions currentPrices rest)"

definition calculatePositions ::
  "(string \<Rightarrow> int) \<Rightarrow> Trade list \<Rightarrow> (string \<rightharpoonup> rat) \<Rightarrow> Position list" where
  "calculatePositions getTime trades currentPrices =
     emitPositions currentPrices (processTrades [] (sortTrades getTime trades))"

subsection \<open>calculateTotalProfitLoss\<close>

text \<open>
  The loop, on its three variables \<^verbatim>\<open>totalCost\<close>, \<^verbatim>\<open>totalMarketValue\<close> and
  \<^verbatim>\<open>hasAnyPrice\<close>, here \<open>tc\<close>, \<open>tmv\<close> and \<open>hasAnyPrice\<close>.
\<close>

fun sumPositions :: "rat \<times> rat \<times> bool \<Rightarrow> Position list \<Rightarrow> rat \<times> rat \<times> bool" where
  "sumPositions s [] = s"
| "sumPositions (tc, tmv, hasAnyPrice) (pos # rest) =
     sumPositions
       (case Position.marketValue pos of
          None \<Rightarrow> (tc + Position.totalCost pos, tmv, hasAnyPrice)
        | Some mv \<Rightarrow> (tc + Position.totalCost pos, tmv + mv, True))
       rest"

text \<open>
  The test for the empty array comes after the loop, as in the source; \<open>tpl\<close> and
  \<open>tplp\<close> are \<^verbatim>\<open>totalProfitLoss\<close> and \<^verbatim>\<open>totalProfitLossPercent\<close>.
\<close>

definition calculateTotalProfitLoss :: "Position list \<Rightarrow> Totals" where
  "calculateTotalProfitLoss positions =
     (case sumPositions (0, 0, False) positions of
        (tc, tmv, hasAnyPrice) \<Rightarrow>
          if length positions = 0 then
            \<lparr> Totals.totalCost = 0, totalMarketValue = Some 0,
              totalProfitLoss = Some 0, totalProfitLossPercent = Some 0 \<rparr>
          else
            (let tpl = (if hasAnyPrice then Some (tmv - tc) else None);
                 tplp = (if hasAnyPrice \<and> tc > 0
                         then Some (((tmv - tc) / tc) * 100) else None)
             in \<lparr> Totals.totalCost = tc,
                  totalMarketValue = (if hasAnyPrice then Some tmv else None),
                  totalProfitLoss = tpl,
                  totalProfitLossPercent = tplp \<rparr>))"

subsection \<open>analyzeTradeHistory\<close>

text \<open>The state of the loop: the points pushed so far, the running cost, the inventory map.\<close>

record AnalysisState =
  points :: "AnalysisPoint list"
  currentCumulativeCost :: rat
  stockInventory :: "(string \<times> Inventory) list"

text \<open>\<^verbatim>\<open>trade.date.split('T')[0]\<close>\<close>

definition tradeDate :: "Trade \<Rightarrow> string" where
  "tradeDate trade = takeWhile (\<lambda>c. c \<noteq> CHR ''T'') (Trade.date trade)"

text \<open>\<^verbatim>\<open>stockInventory.get(trade.stockCode) || { quantity: 0, totalCost: 0 }\<close>\<close>

definition newInventory :: Inventory where
  "newInventory = \<lparr> Inventory.quantity = 0, Inventory.totalCost = 0 \<rparr>"

definition getInventory :: "(string \<times> Inventory) list \<Rightarrow> Trade \<Rightarrow> Inventory" where
  "getInventory inventoryMap trade =
     (case map_of inventoryMap (Trade.stockCode trade) of
        Some i \<Rightarrow> i
      | None \<Rightarrow> newInventory)"

text \<open>
  The branch of the loop body on the kind of the trade. Its result is the triple of the
  updated \<^verbatim>\<open>inventory\<close>, \<^verbatim>\<open>tradeProfit\<close> and the updated
  \<^verbatim>\<open>currentCumulativeCost\<close>.
\<close>

definition updateInventory :: "Inventory \<Rightarrow> rat \<Rightarrow> Trade \<Rightarrow> Inventory \<times> rat \<times> rat" where
  "updateInventory inventory cumulative trade =
     (let tradeAmount = Trade.price trade * Trade.quantity trade
      in if Trade.type trade = Buy then
           (let costBasis = tradeAmount + commissionOr0 trade
            in (\<lparr> Inventory.quantity = Inventory.quantity inventory + Trade.quantity trade,
                  Inventory.totalCost = Inventory.totalCost inventory + costBasis \<rparr>,
                0,
                cumulative + costBasis))
         else if Inventory.quantity inventory > 0 then
           (let avgCost = Inventory.totalCost inventory / Inventory.quantity inventory;
                soldQuantity = min (Trade.quantity trade) (Inventory.quantity inventory);
                costOfSold = avgCost * soldQuantity
            in (\<lparr> Inventory.quantity = Inventory.quantity inventory - soldQuantity,
                  Inventory.totalCost = Inventory.totalCost inventory - costOfSold \<rparr>,
                tradeAmount - commissionOr0 trade - costOfSold,
                cumulative - costOfSold))
         else (inventory, 0, cumulative))"

text \<open>The point pushed for a trade.\<close>

definition newPoint :: "Trade \<Rightarrow> rat \<Rightarrow> rat \<Rightarrow> AnalysisPoint" where
  "newPoint trade tradeProfit cumulative =
     \<lparr> AnalysisPoint.date = tradeDate trade,
       AnalysisPoint.cost = Trade.price trade * Trade.quantity trade,
       AnalysisPoint.profit = tradeProfit,
       AnalysisPoint.cumulativeCost = cumulative \<rparr>"

text \<open>One iteration of the loop.\<close>

definition analyzeTrade :: "AnalysisState \<Rightarrow> Trade \<Rightarrow> AnalysisState" where
  "analyzeTrade s trade =
     (let inventory = getInventory (stockInventory s) trade;
          (inventory', tradeProfit, cumulative') =
            updateInventory inventory (currentCumulativeCost s) trade
      in \<lparr> points = points s @ [newPoint trade tradeProfit cumulative'],
           currentCumulativeCost = cumulative',
           stockInventory = AList.update (Trade.stockCode trade) inventory' (stockInventory s) \<rparr>)"

fun analyzeTrades :: "AnalysisState \<Rightarrow> Trade list \<Rightarrow> AnalysisState" where
  "analyzeTrades s [] = s"
| "analyzeTrades s (trade # rest) = analyzeTrades (analyzeTrade s trade) rest"

definition initialAnalysisState :: AnalysisState where
  "initialAnalysisState = \<lparr> points = [], currentCumulativeCost = 0, stockInventory = [] \<rparr>"

definition analyzeTradeHistory :: "(string \<Rightarrow> int) \<Rightarrow> Trade list \<Rightarrow> AnalysisPoint list" where
  "analyzeTradeHistory getTime trades =
     points (analyzeTrades initialAnalysisState (sortTrades getTime trades))"

subsection \<open>Views of the two maps used in the proofs\<close>





subsection \<open>The three functions on an explicit store\<close>

text \<open>
  The definitions above take and return values, so they cannot change their arguments.
  To state what the calls do to the objects they are given, the same functions are
  written once more on a store: a list of cells, where a reference is the index of a
  cell. \<open>alloc\<close> appends a cell (an object, array or map literal, \<^verbatim>\<open>new Map()\<close>,
  the spread \<^verbatim>\<open>[...trades]\<close>), \<open>storeCell\<close> overwrites one (an assignment to a
  field, \<^verbatim>\<open>Map.set\<close>, \<^verbatim>\<open>push\<close>, the in-place \<^verbatim>\<open>sort\<close>), and a \<open>load\<close> reads
  one. A load gives \<open>None\<close> when the reference does not hold a cell of the kind that
  the TypeScript type promises. Arrays and the two internal maps hold references; trades,
  positions, points and the records of the maps hold strings and numbers only. The
  arithmetic of each step is that of \<open>updateExisting\<close>, \<open>toPosition\<close>,
  \<open>updateInventory\<close> and \<open>newPoint\<close> above.
\<close>

type_synonym ref = nat

datatype cell =
    TradeCell Trade
  | ArrayCell "ref list"
  | PriceMapCell "(string \<times> rat) list"
  | ObjectMapCell "(string \<times> ref) list"
  | DataCell PositionData
  | PositionCell Position
  | InventoryCell Inventory
  | PointCell AnalysisPoint
  | TotalsCell Totals

type_synonym heap = "cell list"

definition alloc :: "heap \<Rightarrow> cell \<Rightarrow> heap \<times> ref" where
  "alloc h c = (h @ [c], length h)"

definition storeCell :: "heap \<Rightarrow> ref \<Rightarrow> cell \<Rightarrow> heap" where
  "storeCell h r c = h[r := c]"

definition loadCell :: "heap \<Rightarrow> ref \<Rightarrow> cell option" where
  "loadCell h r = (if r < length h then Some (h ! r) else None)"

definition loadTrade :: "heap \<Rightarrow> ref \<Rightarrow> Trade option" where
  "loadTrade h r = (case loadCell h r of Some (TradeCell t) \<Rightarrow> Some t | _ \<Rightarrow> None)"

definition loadArray :: "heap \<Rightarrow> ref \<Rightarrow> ref list option" where
  "loadArray h r = (case loadCell h r of Some (ArrayCell rs) \<Rightarrow> Some rs | _ \<Rightarrow> None)"

definition loadPriceMap :: "heap \<Rightarrow> ref \<Rightarrow> (string \<times> rat) list option" where
  "loadPriceMap h r = (case loadCell h r of Some (PriceMapCell m) \<Rightarrow> Some m | _ \<Rightarrow> None)"

definition loadObjectMap :: "heap \<Rightarrow> ref \<Rightarrow> (string \<times> ref) list option" where
  "loadObjectMap h r = (case loadCell h r of Some (ObjectMapCell m) \<Rightarrow> Some m | _ \<Rightarrow> None)"

definition loadData :: "heap \<Rightarrow> ref \<Rightarrow> PositionData option" where
  "loadData h r = (case loadCell h r of Some (DataCell d) \<Rightarrow> Some d | _ \<Rightarrow> None)"

definition loadPosition :: "heap \<Rightarrow> ref \<Rightarrow> Position option" where
  "loadPosition h r = (case loadCell h r of Some (PositionCell p) \<Rightarrow> Some p | _ \<Rightarrow> None)"

definition loadInventory :: "heap \<Rightarrow> ref \<Rightarrow> Inventory option" where
  "loadInventory h r = (case loadCell h r of Some (InventoryCell i) \<Rightarrow> Some i | _ \<Rightarrow> None)"

definition loadPoint :: "heap \<Rightarrow> ref \<Rightarrow> AnalysisPoint option" where
  "loadPoint h r = (case loadCell h r of Some (PointCell p) \<Rightarrow> Some p | _ \<Rightarrow> None)"

text \<open>
  \<^verbatim>\<open>[...trades].sort(...)\<close>: the copy is a new array; sorting reads the date of every
  trade and overwrites the copy. The result is the store and the sorted references.
\<close>

definition sortedCopy :: "(string \<Rightarrow> int) \<Rightarrow> heap \<Rightarrow> ref \<Rightarrow> (heap \<times> ref list) option" where
  "sortedCopy getTime h trades = do {
     refs \<leftarrow> loadArray h trades;
     let (h1, sortedTrades) = alloc h (ArrayCell refs);
     values \<leftarrow> those (map (loadTrade h1) refs);
     let sorted = map fst (sort_key (\<lambda>(r, t). getTime (Trade.date t)) (zip refs values));
     Some (storeCell h1 sortedTrades (ArrayCell sorted), sorted)
   }"

text \<open>One iteration of the first loop of \<^verbatim>\<open>calculatePositions\<close>.\<close>

definition processTradeStore :: "heap \<Rightarrow> ref \<Rightarrow> ref \<Rightarrow> heap option" where
  "processTradeStore h positionMap tradeRef = do {
     trade \<leftarrow> loadTrade h tradeRef;
     m \<leftarrow> loadObjectMap h positionMap;
     let (h1, existing) =
       (case map_of m (Trade.stockCode trade) of
          Some e \<Rightarrow> (h, e)
        | None \<Rightarrow> alloc h (DataCell (newPositionData trade)));
     data \<leftarrow> loadData h1 existing;
     let h2 = storeCell h1 existing (DataCell (updateExisting data trade));
     m2 \<leftarrow> loadObjectMap h2 positionMap;
     Some (storeCell h2 positionMap
             (ObjectMapCell (AList.update (Trade.stockCode trade) existing m2)))
   }"

fun processTradesStore :: "heap \<Rightarrow> ref \<Rightarrow> ref list \<Rightarrow> heap option" where
  "processTradesStore h positionMap [] = Some h"
| "processTradesStore h positionMap (tradeRef # rest) =
     (case processTradeStore h positionMap tradeRef of
        None \<Rightarrow> None
      | Some h' \<Rightarrow> processTradesStore h' positionMap rest)"

text \<open>The second loop: a new object for every position, pushed onto \<^verbatim>\<open>positions\<close>.\<close>

fun emitPositionsStore ::
  "heap \<Rightarrow> (string \<rightharpoonup> rat) \<Rightarrow> ref \<Rightarrow> (string \<times> ref) list \<Rightarrow> heap option" where
  "emitPositionsStore h currentPrices positions [] = Some h"
| "emitPositionsStore h currentPrices positions ((code, dataRef) # rest) =
     (case loadData h dataRef of
        None \<Rightarrow> None
      | Some data \<Rightarrow>
          if PositionData.totalQuantity data \<le> 0
          then emitPositionsStore h currentPrices positions rest
          else
            (let (h1, p) = alloc h (PositionCell (toPosition currentPrices code data))
             in case loadArray h1 positions of
                  None \<Rightarrow> None
                | Some ps \<Rightarrow>
                    emitPositionsStore (storeCell h1 positions (ArrayCell (ps @ [p])))
                      currentPrices positions rest))"

definition calculatePositionsStore ::
  "(string \<Rightarrow> int) \<Rightarrow> heap \<Rightarrow> ref \<Rightarrow> ref \<Rightarrow> (heap \<times> ref) option" where
  "calculatePositionsStore getTime h trades currentPrices = do {
     let (h1, positionMap) = alloc h (ObjectMapCell []);
     (h2, sortedTrades) \<leftarrow> sortedCopy getTime h1 trades;
     h3 \<leftarrow> processTradesStore h2 positionMap sortedTrades;
     let (h4, positions) = alloc h3 (ArrayCell []);
     prices \<leftarrow> loadPriceMap h4 currentPrices;
     m \<leftarrow> loadObjectMap h4 positionMap;
     h5 \<leftarrow> emitPositionsStore h4 (map_of prices) positions m;
     Some (h5, positions)
   }"

text \<open>
  One iteration of the loop of \<^verbatim>\<open>analyzeTradeHistory\<close>; \<^verbatim>\<open>currentCumulativeCost\<close>
  is a local number and is passed along.
\<close>

definition analyzeTradeStore ::
  "heap \<Rightarrow> ref \<Rightarrow> ref \<Rightarrow> rat \<Rightarrow> ref \<Rightarrow> (heap \<times> rat) option" where
  "analyzeTradeStore h pointsRef inventoryMapRef cumulative tradeRef = do {
     trade \<leftarrow> loadTrade h tradeRef;
     m \<leftarrow> loadObjectMap h inventoryMapRef;
     let (h1, inventoryRef) =
       (case map_of m (Trade.stockCode trade) of
          Some i \<Rightarrow> (h, i)
        | None \<Rightarrow> alloc h (InventoryCell newInventory));
     inventory \<leftarrow> loadInventory h1 inventoryRef;
     let (inventory', tradeProfit, cumulative') = updateInventory inventory cumulative trade;
     let h2 = storeCell h1 inventoryRef (InventoryCell inventory');
     m2 \<leftarrow> loadObjectMap h2 inventoryMapRef;
     let h3 = storeCell h2 inventoryMapRef
                (ObjectMapCell (AList.update (Trade.stockCode trade) inventoryRef m2));
     let (h4, point) = alloc h3 (PointCell (newPoint trade tradeProfit cumulative'));
     ps \<leftarrow> loadArray h4 pointsRef;
     Some (storeCell h4 pointsRef (ArrayCell (ps @ [point])), cumulative')
   }"

fun analyzeTradesStore :: "heap \<Rightarrow> ref \<Rightarrow> ref \<Rightarrow> rat \<Rightarrow> ref list \<Rightarrow> heap option" where
  "analyzeTradesStore h pointsRef inventoryMapRef cumulative [] = Some h"
| "analyzeTradesStore h pointsRef inventoryMapRef cumulative (tradeRef # rest) =
     (case analyzeTradeStore h pointsRef inventoryMapRef cumulative tradeRef of
        None \<Rightarrow> None
      | Some (h', cumulative') \<Rightarrow>
          analyzeTradesStore h' pointsRef inventoryMapRef cumulative' rest)"

definition analyzeTradeHistoryStore ::
  "(string \<Rightarrow> int) \<Rightarrow> heap \<Rightarrow> ref \<Rightarrow> (heap \<times> ref) option" where
  "analyzeTradeHistoryStore getTime h trades = do {
     (h1, sortedTrades) \<leftarrow> sortedCopy getTime h trades;
     let (h2, pointsRef) = alloc h1 (ArrayCell []);
     let (h3, inventoryMapRef) = alloc h2 (ObjectMapCell []);
     h4 \<leftarrow> analyzeTradesStore h3 pointsRef inventoryMapRef 0 sortedTrades;
     Some (h4, pointsRef)
   }"

text \<open>
  \<^verbatim>\<open>calculateTotalProfitLoss\<close> reads the positions, works on local numbers and
  returns a new object.
\<close>

definition calculateTotalProfitLossStore :: "heap \<Rightarrow> ref \<Rightarrow> (heap \<times> ref) option" where
  "calculateTotalProfitLossStore h positions = do {
     refs \<leftarrow> loadArray h positions;
     ps \<leftarrow> those (map (loadPosition h) refs);
     Some (alloc h (TotalsCell (calculateTotalProfitLoss ps)))
   }"

text \<open>The values that the two internal maps and the loop of the analysis hold in a store.\<close>

definition positionMapOf :: "heap \<Rightarrow> (string \<times> ref) list \<Rightarrow> (string \<times> PositionData) list" where
  "positionMapOf h m = map (\<lambda>(code, r). (code, the (loadData h r))) m"

definition inventoryMapOf :: "heap \<Rightarrow> (string \<times> ref) list \<Rightarrow> (string \<times> Inventory) list" where
  "inventoryMapOf h m = map (\<lambda>(code, r). (code, the (loadInventory h r))) m"

definition analysisStateOf ::
  "heap \<Rightarrow> ref list \<Rightarrow> (string \<times> ref) list \<Rightarrow> rat \<Rightarrow> AnalysisState" where
  "analysisStateOf h ps m cumulative =
     \<lparr> points = map (\<lambda>p. the (loadPoint h p)) ps,
       currentCumulativeCost = cumulative,
       stockInventory = inventoryMapOf h m \<rparr>"

text \<open>
  What the loops keep true: the internal map and array were allocated by the call
  (at \<open>n\<close> or later), and every record or point they refer to is newer still and of the
  right kind, with no record shared between two codes.
\<close>

definition mapInvariant :: "nat \<Rightarrow> heap \<Rightarrow> ref \<Rightarrow> bool" where
  "mapInvariant n h positionMap =
     (case loadObjectMap h positionMap of
        None \<Rightarrow> False
      | Some m \<Rightarrow> n \<le> positionMap \<and> distinct (map fst m) \<and> distinct (map snd m) \<and>
                 list_all (\<lambda>(code, r). positionMap < r \<and> loadData h r \<noteq> None) m)"

definition analysisInvariant :: "nat \<Rightarrow> heap \<Rightarrow> ref \<Rightarrow> ref \<Rightarrow> bool" where
  "analysisInvariant n h pointsRef inventoryMapRef =
     (n \<le> pointsRef \<and> pointsRef < inventoryMapRef \<and>
      (case loadArray h pointsRef of
         None \<Rightarrow> False
       | Some ps \<Rightarrow> list_all (\<lambda>p. inventoryMapRef < p \<and> loadPoint h p \<noteq> None) ps) \<and>
      (case loadObjectMap h inventoryMapRef of
         None \<Rightarrow> False
       | Some m \<Rightarrow> distinct (map fst m) \<and> distinct (map snd m) \<and>
                  list_all (\<lambda>(code, r). inventoryMapRef < r \<and> loadInventory h r \<noteq> None) m))"

subsection \<open>Sample data for the worked examples\<close>

text \<open>
  A stand-in for the date parser in the worked examples: the samples use the date
  strings \<open>''1''\<close> and \<open>''02''\<close>, ordered by their length.
\<close>

definition exampleTime :: "string \<Rightarrow> int" where
  "exampleTime d = int (length d)"

definition exampleBuy :: Trade where
  "exampleBuy =
     \<lparr> trade_id = ''t1'', Trade.stockCode = ''X'', Trade.stockName = ''X Corp'', type = Buy,
       price = 10, Trade.quantity = 100, Trade.date = ''1'', commission = Some 5, tags = None \<rparr>"

definition exampleSell :: Trade where
  "exampleSell =
     \<lparr> trade_id = ''t2'', Trade.stockCode = ''X'', Trade.stockName = ''X Corp'', type = Sell,
       price = 12, Trade.quantity = 50, Trade.date = ''02'', commission = Some 2, tags = None \<rparr>"






definition pricedPosition :: Position where
  "pricedPosition =
     \<lparr> Position.stockCode = ''A'', stockName = ''A'', totalQuantity = 100, totalCost = 800,
       averageCost = 8, currentPrice = Some 10, marketValue = Some 1000, profitLoss = Some 200,
       profitLossPercent = Some 25 \<rparr>"

definition unpricedPosition :: Position where
  "unpricedPosition =
     \<lparr> Position.stockCode = ''B'', stockName = ''B'', totalQuantity = 50, totalCost = 500,
       averageCost = 10, currentPrice = None, marketValue = None, profitLoss = None,
       profitLossPercent = None \<rparr>"

text \<open>
  A store with two trades, the array of both, a price map, two positions and their array.
\<close>

definition exampleStore :: heap where
  "exampleStore =
     [TradeCell exampleSell, TradeCell exampleBuy, ArrayCell [0, 1],
      PriceMapCell [(''X'', 12)],
      PositionCell pricedPosition, PositionCell unpricedPosition, ArrayCell [4, 5]]"

section \<open>Properties\<close>

subsection \<open>Totals of a position list\<close>

lemma sumPositions_unpriced:
  "\<forall>p\<in>set positions. Position.marketValue p = None \<Longrightarrow>
   sumPositions (tc, tmv, h) positions =
     (tc + sum_list (map Position.totalCost positions), tmv, h)"
  by (induction positions arbitrary: tc) (simp_all add: add.assoc)

text \<open>
  C1, as the code has it. The claim says that the three price-derived totals are unknown
  whenever no position has a known market value, the empty list included. The source
  tests \<^verbatim>\<open>positions.length === 0\<close> and returns the number zero in all four fields
  then. So: no trades give no positions; the totals of no positions are four zeros; and
  for a list that is not empty and has no market value at all, the three price-derived
  totals are unknown while \<open>totalCost\<close> is the sum of the costs.
\<close>

theorem totals_unknown_when_unpriced:
  "calculatePositions getTime [] currentPrices = [] \<and>
   calculateTotalProfitLoss [] =
     \<lparr> Totals.totalCost = 0, totalMarketValue = Some 0,
       totalProfitLoss = Some 0, totalProfitLossPercent = Some 0 \<rparr> \<and>
   (positions \<noteq> [] \<and> (\<forall>p\<in>set positions. Position.marketValue p = None) \<longrightarrow>
      calculateTotalProfitLoss positions =
        \<lparr> Totals.totalCost = sum_list (map Position.totalCost positions),
          totalMarketValue = None, totalProfitLoss = None, totalProfitLossPercent = None \<rparr>)"
  by (simp add: calculatePositions_def sortTrades_def calculateTotalProfitLoss_def
        sumPositions_unpriced)

theorem totals_unknown_when_unpriced_witness:
  "[unpricedPosition] \<noteq> [] \<and>
   Position.marketValue unpricedPosition = None \<and>
   calculateTotalProfitLoss [unpricedPosition] =
     \<lparr> Totals.totalCost = 500, totalMarketValue = None, totalProfitLoss = None,
       totalProfitLossPercent = None \<rparr>"
  using totals_unknown_when_unpriced [of exampleTime Map.empty "[unpricedPosition]"]
  by (simp add: unpricedPosition_def)

text \<open>
  C1 as stated fails on the empty list: the three totals are the number zero there, not
  unknown.
\<close>

theorem totals_of_empty_are_zero:
  "Totals.totalMarketValue
     (calculateTotalProfitLoss (calculatePositions exampleTime [] Map.empty)) = Some 0 \<and>
   Totals.totalProfitLoss
     (calculateTotalProfitLoss (calculatePositions exampleTime [] Map.empty)) = Some 0 \<and>
   Totals.totalProfitLossPercent
     (calculateTotalProfitLoss (calculatePositions exampleTime [] Map.empty)) = Some 0"
  by (simp add: calculateTotalProfitLoss_def calculatePositions_def sortTrades_def)

text \<open>
  C2, as the code has it. For a position with market value 1000 and cost 800 and a
  position without price and with cost 500, in either order, \<open>totalCost\<close> is 1300 and
  \<open>totalMarketValue\<close> is 1000, as claimed; \<open>totalProfitLoss\<close> is
  \<open>totalMarketValue - totalCost = -300\<close>, since the cost of the unpriced position is
  part of \<open>totalCost\<close>, and the percentage is \<open>-300 / 1300 * 100\<close>.
\<close>

theorem totals_mixed_example:
  "Position.marketValue p1 = Some 1000 \<and> Position.totalCost p1 = 800 \<and>
   Position.marketValue p2 = None \<and> Position.totalCost p2 = 500 \<longrightarrow>
   calculateTotalProfitLoss [p1, p2] =
     \<lparr> Totals.totalCost = 1300, totalMarketValue = Some 1000,
       totalProfitLoss = Some (- 300), totalProfitLossPercent = Some (- 300 / 1300 * 100) \<rparr> \<and>
   calculateTotalProfitLoss [p2, p1] = calculateTotalProfitLoss [p1, p2]"
  by (simp add: calculateTotalProfitLoss_def)

theorem totals_mixed_example_witness:
  "Position.marketValue pricedPosition = Some 1000 \<and> Position.totalCost pricedPosition = 800 \<and>
   Position.marketValue unpricedPosition = None \<and> Position.totalCost unpricedPosition = 500 \<and>
   Totals.totalCost (calculateTotalProfitLoss [pricedPosition, unpricedPosition]) = 1300 \<and>
   Totals.totalMarketValue (calculateTotalProfitLoss [pricedPosition, unpricedPosition])
     = Some 1000 \<and>
   Totals.totalProfitLoss (calculateTotalProfitLoss [pricedPosition, unpricedPosition])
     = Some (- 300)"
  using totals_mixed_example [of pricedPosition unpricedPosition]
  by (simp add: pricedPosition_def unpricedPosition_def)

text \<open>C2 as stated fails: the total profit of the two sample positions is not 200.\<close>

theorem totals_mixed_example_not_200:
  "Totals.totalProfitLoss (calculateTotalProfitLoss [pricedPosition, unpricedPosition])
     \<noteq> Some 200"
  by (simp add: calculateTotalProfitLoss_def pricedPosition_def unpricedPosition_def)

subsection \<open>The worked example of a buy and a sell\<close>



subsection \<open>Quantities never go below zero\<close>

lemma emitPositions_positive:
  "p \<in> set (emitPositions currentPrices m) \<Longrightarrow> 0 < Position.totalQuantity p"
  by (induction currentPrices m rule: emitPositions.induct)
     (auto simp: toPosition_def Let_def split: if_splits)

lemma map_of_processTrade:
  "map_of (processTrade positionMap trade) =
     (map_of positionMap)(Trade.stockCode trade \<mapsto>
        updateExisting (getExisting positionMap trade) trade)"
  by (simp add: processTrade_def update_conv')

text \<open>
  C4. Every position that \<open>calculatePositions\<close> returns has a positive quantity. And
  for a sell processed on any map: the record stored for its code afterwards has the
  quantity \<open>held - min (trade quantity) held\<close>, which is not negative, when the held
  quantity was positive; when it was not (no record yet, or nothing held), quantity and
  cost are what they were.
\<close>

theorem quantity_never_negative:
  "(\<forall>p\<in>set (calculatePositions getTime trades currentPrices). 0 < Position.totalQuantity p) \<and>
   (Trade.type trade = Sell \<longrightarrow>
      (let existing = getExisting positionMap trade;
           soldQuantity = min (Trade.quantity trade) (PositionData.totalQuantity existing)
       in \<exists>updated.
            map_of (processTrade positionMap trade) (Trade.stockCode trade) = Some updated \<and>
            (if 0 < PositionData.totalQuantity existing
             then PositionData.totalQuantity updated
                    = PositionData.totalQuantity existing - soldQuantity \<and>
                  0 \<le> PositionData.totalQuantity updated
             else PositionData.totalQuantity updated = PositionData.totalQuantity existing \<and>
                  PositionData.totalCost updated = PositionData.totalCost existing)))"
proof (intro conjI impI)
  show "\<forall>p\<in>set (calculatePositions getTime trades currentPrices). 0 < Position.totalQuantity p"
    by (simp add: calculatePositions_def emitPositions_positive)
next
  assume "Trade.type trade = Sell"
  then show "let existing = getExisting positionMap trade;
           soldQuantity = min (Trade.quantity trade) (PositionData.totalQuantity existing)
       in \<exists>updated.
            map_of (processTrade positionMap trade) (Trade.stockCode trade) = Some updated \<and>
            (if 0 < PositionData.totalQuantity existing
             then PositionData.totalQuantity updated
                    = PositionData.totalQuantity existing - soldQuantity \<and>
                  0 \<le> PositionData.totalQuantity updated
             else PositionData.totalQuantity updated = PositionData.totalQuantity existing \<and>
                  PositionData.totalCost updated = PositionData.totalCost existing)"
    by (simp add: map_of_processTrade updateExisting_def Let_def)
qed

theorem quantity_never_negative_witness:
  "(\<exists>p. calculatePositions exampleTime [exampleBuy, exampleSell] Map.empty = [p] \<and>
        0 < Position.totalQuantity p) \<and>
   Trade.type exampleSell = Sell \<and>
   0 < PositionData.totalQuantity (getExisting (processTrades [] [exampleBuy]) exampleSell) \<and>
   (\<exists>updated.
      map_of (processTrade (processTrades [] [exampleBuy]) exampleSell) ''X'' = Some updated \<and>
      PositionData.totalQuantity updated = 50) \<and>
   \<not> 0 < PositionData.totalQuantity (getExisting [] exampleSell) \<and>
   (\<exists>updated.
      map_of (processTrade [] exampleSell) ''X'' = Some updated \<and>
      PositionData.totalQuantity updated = 0 \<and> PositionData.totalCost updated = 0)"
  using quantity_never_negative
          [of exampleTime "[exampleBuy, exampleSell]" Map.empty exampleSell
              "processTrades [] [exampleBuy]"]
        quantity_never_negative
          [of exampleTime "[exampleBuy, exampleSell]" Map.empty exampleSell "[]"]
  by (simp add: exampleBuy_def exampleSell_def exampleTime_def calculatePositions_def
        sortTrades_def processTrade_def getExisting_def newPositionData_def updateExisting_def commissionOr0_def
        toPosition_def Let_def)

subsection \<open>The points of the analysis\<close>

lemma points_analyzeTrade:
  "points (analyzeTrade s trade) = points s @ [last (points (analyzeTrade s trade))]"
  by (simp add: analyzeTrade_def updateInventory_def newPoint_def Let_def split: prod.splits)

lemma points_analyzeTrades_length:
  "length (points (analyzeTrades s ts)) = length (points s) + length ts"
  by (induction ts arbitrary: s) (simp_all add: analyzeTrade_def updateInventory_def newPoint_def Let_def split: prod.splits)

lemma points_analyzeTrades_prefix:
  "take (length (points s)) (points (analyzeTrades s ts)) = points s"
proof (induction ts arbitrary: s)
  case Nil
  then show ?case by simp
next
  case (Cons t ts)
  have "take (length (points s)) (points (analyzeTrades (analyzeTrade s t) ts))
        = take (length (points s))
            (take (length (points (analyzeTrade s t)))
               (points (analyzeTrades (analyzeTrade s t) ts)))"
    by (subst points_analyzeTrade) (simp add: min_def)
  also have "\<dots> = take (length (points s)) (points (analyzeTrade s t))"
    by (simp only: Cons.IH)
  also have "\<dots> = points s"
    by (subst points_analyzeTrade) simp
  finally show ?case by simp
qed

lemma analyzeTrades_append:
  "analyzeTrades s (xs @ ys) = analyzeTrades (analyzeTrades s xs) ys"
  by (induction xs arbitrary: s) simp_all

text \<open>The point at index \<open>length pre\<close> is the one pushed for the trade after \<open>pre\<close>.\<close>

lemma analyzeTradeHistory_nth:
  assumes "sortTrades getTime trades = pre @ trade # post"
  shows "analyzeTradeHistory getTime trades ! length pre =
           last (points (analyzeTrade (analyzeTrades initialAnalysisState pre) trade))"
proof -
  let ?s = "analyzeTrades initialAnalysisState pre"
  let ?s1 = "analyzeTrade ?s trade"
  have len1: "length (points ?s1) = Suc (length pre)"
    using points_analyzeTrades_length [of initialAnalysisState "pre @ [trade]"]
    by (simp add: analyzeTrades_append initialAnalysisState_def)
  have "analyzeTradeHistory getTime trades = points (analyzeTrades ?s1 post)"
    by (simp add: analyzeTradeHistory_def assms analyzeTrades_append)
  moreover have "take (Suc (length pre)) (points (analyzeTrades ?s1 post)) = points ?s1"
    using points_analyzeTrades_prefix [of ?s1 post] len1 by simp
  ultimately have "analyzeTradeHistory getTime trades ! length pre = points ?s1 ! length pre"
    by (metis lessI nth_take)
  also have "\<dots> = last (points ?s1)"
    using len1 by (metis diff_Suc_1 last_conv_nth length_0_conv nat.distinct(1))
  finally show ?thesis .
qed

lemma analyzeTrade_sell:
  assumes "Trade.type trade = Sell"
  shows "let inventory = getInventory (stockInventory s) trade;
             s' = analyzeTrade s trade;
             point = last (points s');
             costOfSold = (Inventory.totalCost inventory / Inventory.quantity inventory)
                            * min (Trade.quantity trade) (Inventory.quantity inventory)
         in \<exists>inventory'.
              map_of (stockInventory s') (Trade.stockCode trade) = Some inventory' \<and>
              (if 0 < Inventory.quantity inventory
               then AnalysisPoint.profit point
                      = Trade.price trade * Trade.quantity trade - commissionOr0 trade
                          - costOfSold \<and>
                    Inventory.totalCost inventory'
                      = Inventory.totalCost inventory - costOfSold \<and>
                    currentCumulativeCost s' = currentCumulativeCost s - costOfSold
               else AnalysisPoint.profit point = 0 \<and>
                    Inventory.totalCost inventory' = Inventory.totalCost inventory \<and>
                    currentCumulativeCost s' = currentCumulativeCost s)"
  using assms by (simp add: analyzeTrade_def updateInventory_def newPoint_def Let_def update_conv')

text \<open>
  C5. Let a sell be the trade at some place of the sorted sequence, \<open>s\<close> the state of
  the loop before it and \<open>inventory\<close> the record of its code (zero quantity and cost
  when there is none). The point returned for it has the profit
  \<open>price * quantity - commission - costOfSold\<close> with
  \<open>costOfSold = (cost / quantity) * min (trade quantity) (held quantity)\<close>, and the cost of
  the record and the running cumulative cost both go down by \<open>costOfSold\<close>, when the
  held quantity is positive; otherwise the profit is 0 and neither cost changes.
\<close>

theorem sell_realized_profit:
  assumes "sortTrades getTime trades = pre @ trade # post" and "Trade.type trade = Sell"
  shows "let s = analyzeTrades initialAnalysisState pre;
             inventory = getInventory (stockInventory s) trade;
             s' = analyzeTrade s trade;
             point = analyzeTradeHistory getTime trades ! length pre;
             costOfSold = (Inventory.totalCost inventory / Inventory.quantity inventory)
                            * min (Trade.quantity trade) (Inventory.quantity inventory)
         in \<exists>inventory'.
              map_of (stockInventory s') (Trade.stockCode trade) = Some inventory' \<and>
              (if 0 < Inventory.quantity inventory
               then AnalysisPoint.profit point
                      = Trade.price trade * Trade.quantity trade - commissionOr0 trade
                          - costOfSold \<and>
                    Inventory.totalCost inventory'
                      = Inventory.totalCost inventory - costOfSold \<and>
                    currentCumulativeCost s' = currentCumulativeCost s - costOfSold
               else AnalysisPoint.profit point = 0 \<and>
                    Inventory.totalCost inventory' = Inventory.totalCost inventory \<and>
                    currentCumulativeCost s' = currentCumulativeCost s)"
  using analyzeTrade_sell [OF assms(2), of "analyzeTrades initialAnalysisState pre"]
  by (simp only: analyzeTradeHistory_nth [OF assms(1)] Let_def)

theorem sell_realized_profit_witness:
  "sortTrades exampleTime [exampleSell, exampleBuy] = [exampleBuy] @ exampleSell # [] \<and>
   Trade.type exampleSell = Sell \<and>
   0 < Inventory.quantity
         (getInventory (stockInventory (analyzeTrades initialAnalysisState [exampleBuy]))
            exampleSell) \<and>
   AnalysisPoint.profit (analyzeTradeHistory exampleTime [exampleSell, exampleBuy] ! 1)
     = 12 * 50 - 2 - (1005 / 100) * 50 \<and>
   currentCumulativeCost
     (analyzeTrade (analyzeTrades initialAnalysisState [exampleBuy]) exampleSell)
     = 1005 - (1005 / 100) * 50 \<and>
   sortTrades exampleTime [exampleSell] = [] @ exampleSell # [] \<and>
   \<not> 0 < Inventory.quantity (getInventory (stockInventory initialAnalysisState) exampleSell) \<and>
   AnalysisPoint.profit (analyzeTradeHistory exampleTime [exampleSell] ! 0) = 0 \<and>
   currentCumulativeCost (analyzeTrade initialAnalysisState exampleSell) = 0"
proof -
  have a: "sortTrades exampleTime [exampleSell, exampleBuy] = [exampleBuy] @ exampleSell # []"
    by (simp add: sortTrades_def exampleTime_def exampleBuy_def exampleSell_def)
  have b: "sortTrades exampleTime [exampleSell] = [] @ exampleSell # []"
    by (simp add: sortTrades_def)
  have c: "Trade.type exampleSell = Sell"
    by (simp add: exampleSell_def)
  show ?thesis
    using sell_realized_profit [OF a c] sell_realized_profit [OF b c] a b c
    by (simp add: Let_def getInventory_def newInventory_def analyzeTrade_def updateInventory_def newPoint_def initialAnalysisState_def
          commissionOr0_def exampleBuy_def exampleSell_def split: if_splits)
qed

subsection \<open>Sorting keeps the trades\<close>



subsection \<open>Average cost of a buy-only sequence\<close>






subsection \<open>The costs of the points add up to the traded amounts\<close>





subsection \<open>The positions and the analysis run the same accumulators\<close>




















subsection \<open>Swapping two tied trades\<close>




















subsection \<open>The calls change no cell of the store they are given\<close>

lemma those_map_Some:
  assumes "\<forall>x\<in>set xs. f x \<noteq> None"
  shows "those (map f xs) = Some (map (\<lambda>x. the (f x)) xs)"
  using assms by (induction xs) (auto split: option.splits)

lemma loadObjectMap_iff:
  "loadObjectMap h r = Some m \<longleftrightarrow> r < length h \<and> h ! r = ObjectMapCell m"
  by (auto simp: loadObjectMap_def loadCell_def split: cell.splits)

lemma loadData_iff:
  "loadData h r = Some d \<longleftrightarrow> r < length h \<and> h ! r = DataCell d"
  by (auto simp: loadData_def loadCell_def split: cell.splits)

lemma loadTrade_iff:
  "loadTrade h r = Some t \<longleftrightarrow> r < length h \<and> h ! r = TradeCell t"
  by (auto simp: loadTrade_def loadCell_def split: cell.splits)

lemma loadArray_iff:
  "loadArray h r = Some rs \<longleftrightarrow> r < length h \<and> h ! r = ArrayCell rs"
  by (auto simp: loadArray_def loadCell_def split: cell.splits)

lemma loadPriceMap_iff:
  "loadPriceMap h r = Some m \<longleftrightarrow> r < length h \<and> h ! r = PriceMapCell m"
  by (auto simp: loadPriceMap_def loadCell_def split: cell.splits)

lemma loadInventory_iff:
  "loadInventory h r = Some i \<longleftrightarrow> r < length h \<and> h ! r = InventoryCell i"
  by (auto simp: loadInventory_def loadCell_def split: cell.splits)

lemma loadPoint_iff:
  "loadPoint h r = Some p \<longleftrightarrow> r < length h \<and> h ! r = PointCell p"
  by (auto simp: loadPoint_def loadCell_def split: cell.splits)

lemma old_cell:
  assumes "take n h' = take n h" and "r < n"
  shows "h' ! r = h ! r"
proof -
  have "h' ! r = take n h' ! r" using assms(2) by simp
  also have "\<dots> = take n h ! r" using assms(1) by simp
  also have "\<dots> = h ! r" using assms(2) by simp
  finally show ?thesis .
qed

lemma update_absent:
  "k \<notin> fst ` set al \<Longrightarrow> AList.update k v al = al @ [(k, v)]"
  by (induction al) auto

lemma map_entries_replace:
  assumes "distinct (map fst m)" and "distinct (map snd m)" and "(k, e) \<in> set m"
  shows "map (\<lambda>(code, r). (code, if r = e then x else f r)) m =
           AList.update k x (map (\<lambda>(code, r). (code, f r)) m)"
  using assms
proof (induction m)
  case Nil
  then show ?case by simp
next
  case (Cons entry m)
  obtain code r where entry: "entry = (code, r)" by (cases entry)
  show ?case
  proof (cases "code = k")
    case True
    with Cons.prems entry have "r = e"
      by (auto simp: image_iff)
    moreover have "\<forall>(code', r')\<in>set m. r' \<noteq> e"
      using Cons.prems(2) entry \<open>r = e\<close> by (auto simp: image_iff)
    then have "map (\<lambda>(code, r). (code, if r = e then x else f r)) m =
               map (\<lambda>(code, r). (code, f r)) m"
      by (intro map_cong) auto
    ultimately show ?thesis
      using True entry by simp
  next
    case False
    with Cons.prems entry have in_m: "(k, e) \<in> set m"
      by auto
    then have "r \<noteq> e"
      using Cons.prems(2) entry by (auto simp: image_iff)
    moreover have "map (\<lambda>(code, r). (code, if r = e then x else f r)) m =
           AList.update k x (map (\<lambda>(code, r). (code, f r)) m)"
      using Cons.IH Cons.prems(1,2) in_m by simp
    ultimately show ?thesis
      using False entry by simp
  qed
qed

lemma insort_key_map_snd:
  "map snd (insort_key (\<lambda>(r, t). g t) x zs) = insort_key g (snd x) (map snd zs)"
  by (induction zs) (auto simp: case_prod_beta)

lemma sort_key_map_snd:
  "map snd (sort_key (\<lambda>(r, t). g t) zs) = sort_key g (map snd zs)"
  by (induction zs) (simp_all add: insort_key_map_snd)

lemma sortedCopy_values:
  assumes "loadArray h trades = Some refs" and "\<forall>r\<in>set refs. loadTrade h r \<noteq> None"
  shows "\<exists>sorted. sortedCopy getTime h trades = Some (h @ [ArrayCell sorted], sorted) \<and>
           set sorted = set refs \<and>
           map (\<lambda>r. the (loadTrade h r)) sorted =
             sortTrades getTime (map (\<lambda>r. the (loadTrade h r)) refs)"
proof -
  let ?F = "\<lambda>r. the (loadTrade h r)"
  let ?h1 = "h @ [ArrayCell refs]"
  have lt: "\<forall>r\<in>set refs. r < length h"
    using assms(2) by (auto simp: loadTrade_def loadCell_def split: if_splits)
  have same: "\<forall>r\<in>set refs. loadTrade ?h1 r = loadTrade h r"
    using lt by (auto simp: loadTrade_def loadCell_def nth_append)
  then have eq: "map (loadTrade ?h1) refs = map (loadTrade h) refs"
    by simp
  have th: "those (map (loadTrade ?h1) refs) = Some (map ?F refs)"
    unfolding eq using assms(2) by (rule those_map_Some)
  let ?zs = "zip refs (map ?F refs)"
  let ?pairs = "sort_key (\<lambda>(r, t). getTime (Trade.date t)) ?zs"
  let ?sorted = "map fst ?pairs"
  have z: "map fst ?zs = refs"
    by (rule map_fst_zip) simp
  have "set ?sorted = set (map fst ?zs)"
    by (simp only: set_map set_sort)
  then have s: "set ?sorted = set refs"
    by (simp only: z)
  have "\<forall>p\<in>set ?zs. snd p = ?F (fst p)"
    by (auto simp: set_zip)
  then have "\<forall>p\<in>set ?pairs. ?F (fst p) = snd p"
    by simp
  then have "map ?F ?sorted = map snd ?pairs"
    by (simp add: map_eq_conv)
  also have "\<dots> = sort_key (\<lambda>t. getTime (Trade.date t)) (map snd ?zs)"
    by (rule sort_key_map_snd)
  also have "map snd ?zs = map ?F refs"
    by (rule map_snd_zip) simp
  finally have v: "map ?F ?sorted = sortTrades getTime (map ?F refs)"
    by (simp add: sortTrades_def)
  have "sortedCopy getTime h trades = Some (h @ [ArrayCell ?sorted], ?sorted)"
    using assms(1) th by (simp add: sortedCopy_def alloc_def storeCell_def Let_def)
  with s v show ?thesis by blast
qed

lemma mapInvariant_iff:
  "mapInvariant n h pm \<longleftrightarrow>
     (\<exists>m. pm < length h \<and> h ! pm = ObjectMapCell m \<and> n \<le> pm \<and>
          distinct (map fst m) \<and> distinct (map snd m) \<and>
          (\<forall>(code, r)\<in>set m. pm < r \<and> r < length h \<and> (\<exists>d. h ! r = DataCell d)))"
  (is "?L \<longleftrightarrow> ?R")
proof
  assume ?L
  then obtain m where m: "loadObjectMap h pm = Some m" "n \<le> pm"
      "distinct (map fst m)" "distinct (map snd m)"
      "list_all (\<lambda>(code, r). pm < r \<and> loadData h r \<noteq> None) m"
    by (auto simp: mapInvariant_def split: option.splits)
  have "\<forall>(code, r)\<in>set m. pm < r \<and> r < length h \<and> (\<exists>d. h ! r = DataCell d)"
    using m(5) by (auto simp: list_all_iff loadData_iff)
  with m(1-4) show ?R
    by (auto simp: loadObjectMap_iff)
next
  assume ?R
  then obtain m where m: "pm < length h" "h ! pm = ObjectMapCell m" "n \<le> pm"
      "distinct (map fst m)" "distinct (map snd m)"
      "\<forall>(code, r)\<in>set m. pm < r \<and> r < length h \<and> (\<exists>d. h ! r = DataCell d)"
    by blast
  have "loadObjectMap h pm = Some m"
    using m(1,2) by (simp add: loadObjectMap_iff)
  moreover have "list_all (\<lambda>(code, r). pm < r \<and> loadData h r \<noteq> None) m"
    using m(6) by (fastforce simp: list_all_iff loadData_iff)
  ultimately show ?L
    using m(3,4,5) by (simp add: mapInvariant_def)
qed

lemma map_of_positionMapOf:
  "map_of (positionMapOf h m) k = map_option (\<lambda>r. the (loadData h r)) (map_of m k)"
  unfolding positionMapOf_def by (induction m) auto

lemma processTradeStore_step:
  assumes inv: "mapInvariant n h pm"
      and tr: "loadTrade h tr = Some t"
  shows "\<exists>h' m m'. processTradeStore h pm tr = Some h' \<and> mapInvariant n h' pm \<and>
              take n h' = take n h \<and> length h \<le> length h' \<and>
              loadObjectMap h pm = Some m \<and> loadObjectMap h' pm = Some m' \<and>
              positionMapOf h' m' = processTrade (positionMapOf h m) t"
proof -
  from inv obtain m where m: "pm < length h" "h ! pm = ObjectMapCell m" "n \<le> pm"
      "distinct (map fst m)" "distinct (map snd m)"
      "\<forall>(code, r)\<in>set m. pm < r \<and> r < length h \<and> (\<exists>d. h ! r = DataCell d)"
    unfolding mapInvariant_iff by blast
  have lm: "loadObjectMap h pm = Some m"
    using m(1,2) by (simp add: loadObjectMap_iff)
  let ?k = "Trade.stockCode t"
  show ?thesis
  proof (cases "map_of m ?k")
    case (Some e)
    then have in_m: "(?k, e) \<in> set m" by (rule map_of_SomeD)
    with m(6) obtain d where e: "pm < e" "e < length h" "h ! e = DataCell d"
      by blast
    let ?x = "updateExisting d t"
    let ?h2 = "h[e := DataCell ?x]"
    let ?m' = "AList.update ?k e m"
    let ?h3 = "?h2[pm := ObjectMapCell ?m']"
    have m': "?m' = m"
      using Some by (rule update_triv)
    have ld: "loadData h e = Some d"
      using e by (simp add: loadData_iff)
    have lm2: "loadObjectMap ?h2 pm = Some m"
      using m(1,2) e(1) by (simp add: loadObjectMap_iff)
    have run: "processTradeStore h pm tr = Some ?h3"
      using tr lm Some ld lm2
      by (simp add: processTradeStore_def storeCell_def)
    have ents: "\<forall>(code, r)\<in>set m. pm < r \<and> r < length ?h3 \<and> (\<exists>d. ?h3 ! r = DataCell d)"
    proof (clarify)
      fix code r assume "(code, r) \<in> set m"
      with m(6) have r: "pm < r" "r < length h" "\<exists>d. h ! r = DataCell d"
        by auto
      then show "pm < r \<and> r < length ?h3 \<and> (\<exists>d. ?h3 ! r = DataCell d)"
        using e by (cases "r = e") simp_all
    qed
    have inv3: "mapInvariant n ?h3 pm"
      unfolding mapInvariant_iff m' using m(1,3,4,5) ents by auto
    have frame: "take n ?h3 = take n h"
      using m(3) e(1) by simp
    have lm3: "loadObjectMap ?h3 pm = Some m"
      using m(1) by (simp add: loadObjectMap_iff m')
    have data3: "\<forall>(code, r)\<in>set m. the (loadData ?h3 r) = (if r = e then ?x else the (loadData h r))"
    proof (clarify)
      fix code r assume "(code, r) \<in> set m"
      with m(6) have r: "pm < r" "r < length h"
        by auto
      then show "the (loadData ?h3 r) = (if r = e then ?x else the (loadData h r))"
        using e(2) by (auto simp: loadData_def loadCell_def)
    qed
    have "positionMapOf ?h3 m =
            map (\<lambda>(code, r). (code, if r = e then ?x else the (loadData h r))) m"
      unfolding positionMapOf_def using data3 by (intro map_cong) auto
    also have "\<dots> = AList.update ?k ?x (positionMapOf h m)"
      unfolding positionMapOf_def by (rule map_entries_replace [OF m(4,5) in_m])
    also have "\<dots> = processTrade (positionMapOf h m) t"
      using Some ld by (simp add: processTrade_def getExisting_def map_of_positionMapOf)
    finally have "positionMapOf ?h3 m = processTrade (positionMapOf h m) t" .
    with run inv3 frame lm lm3 show ?thesis
      by simp
  next
    case None
    let ?d0 = "newPositionData t"
    let ?x = "updateExisting ?d0 t"
    let ?e = "length h"
    let ?h1 = "h @ [DataCell ?d0]"
    let ?h2 = "?h1[?e := DataCell ?x]"
    let ?m' = "AList.update ?k ?e m"
    let ?h3 = "?h2[pm := ObjectMapCell ?m']"
    have absent: "?k \<notin> fst ` set m"
      using None by (simp add: map_of_eq_None_iff)
    have m': "?m' = m @ [(?k, ?e)]"
      using absent by (rule update_absent)
    have ld: "loadData ?h1 ?e = Some ?d0"
      by (simp add: loadData_iff)
    have lm2: "loadObjectMap ?h2 pm = Some m"
      using m(1,2) by (simp add: loadObjectMap_iff nth_append)
    have run: "processTradeStore h pm tr = Some ?h3"
      using tr lm None ld lm2
      by (simp add: processTradeStore_def storeCell_def alloc_def)
    have old: "\<forall>(code, r)\<in>set m. pm < r \<and> r < length h \<and> r \<noteq> ?e \<and> (\<exists>d. ?h3 ! r = DataCell d)"
      using m(6) by (auto simp: nth_append)
    have ents: "\<forall>(code, r)\<in>set ?m'. pm < r \<and> r < length ?h3 \<and> (\<exists>d. ?h3 ! r = DataCell d)"
      unfolding m' using old m(1) by auto
    have fresh: "?e \<notin> snd ` set m"
      using m(6) by fastforce
    have inv3: "mapInvariant n ?h3 pm"
      unfolding mapInvariant_iff
      using m(1,3,4,5) ents absent fresh by (auto simp: m')
    have frame: "take n ?h3 = take n h"
      using m(1,3) by simp
    have lm3: "loadObjectMap ?h3 pm = Some ?m'"
      using m(1) by (simp add: loadObjectMap_iff)
    have data3: "\<forall>(code, r)\<in>set m. the (loadData ?h3 r) = the (loadData h r)"
    proof (clarify)
      fix code r assume "(code, r) \<in> set m"
      with m(6) have "pm < r" "r < length h"
        by auto
      then show "the (loadData ?h3 r) = the (loadData h r)"
        by (auto simp: loadData_def loadCell_def nth_append)
    qed
    define h3 where "h3 = ?h3"
    have new3: "the (loadData h3 ?e) = ?x"
      unfolding h3_def using m(1) by (simp add: loadData_def loadCell_def)
    have data3': "\<forall>(code, r)\<in>set m. the (loadData h3 r) = the (loadData h r)"
      unfolding h3_def by (rule data3)
    have "positionMapOf h3 ?m' = positionMapOf h3 (m @ [(?k, ?e)])"
      by (simp only: m')
    also have "\<dots> = positionMapOf h3 m @ [(?k, ?x)]"
      unfolding positionMapOf_def using new3 by simp
    also have "positionMapOf h3 m = positionMapOf h m"
      unfolding positionMapOf_def using data3' by (intro map_cong) auto
    also have "positionMapOf h m @ [(?k, ?x)] = AList.update ?k ?x (positionMapOf h m)"
    proof -
      have "?k \<notin> fst ` set (positionMapOf h m)"
        using absent by (force simp: positionMapOf_def)
      then show ?thesis by (simp add: update_absent)
    qed
    also have "\<dots> = processTrade (positionMapOf h m) t"
      using None by (simp add: processTrade_def getExisting_def map_of_positionMapOf)
    finally have "positionMapOf h3 ?m' = processTrade (positionMapOf h m) t" .
    then have "positionMapOf ?h3 ?m' = processTrade (positionMapOf h m) t"
      by (simp only: h3_def)
    with run inv3 frame lm lm3 show ?thesis
      by simp
  qed
qed

lemma processTradesStore_run:
  assumes "mapInvariant n h pm"
      and "\<forall>r\<in>set trs. r < n \<and> (\<exists>t. loadTrade h r = Some t)"
      and "n \<le> length h"
  shows "\<exists>h' m m'. processTradesStore h pm trs = Some h' \<and> mapInvariant n h' pm \<and>
              take n h' = take n h \<and> length h \<le> length h' \<and>
              loadObjectMap h pm = Some m \<and> loadObjectMap h' pm = Some m' \<and>
              positionMapOf h' m' =
                processTrades (positionMapOf h m) (map (\<lambda>r. the (loadTrade h r)) trs)"
  using assms
proof (induction trs arbitrary: h)
  case Nil
  then show ?case
    by (auto simp: mapInvariant_def split: option.splits)
next
  case (Cons tr trs)
  from Cons.prems(2) obtain t where t: "loadTrade h tr = Some t"
    by auto
  from processTradeStore_step [OF Cons.prems(1) t] obtain h1 m m1 where
    h1: "processTradeStore h pm tr = Some h1" "mapInvariant n h1 pm"
        "take n h1 = take n h" "length h \<le> length h1"
        "loadObjectMap h pm = Some m" "loadObjectMap h1 pm = Some m1"
        "positionMapOf h1 m1 = processTrade (positionMapOf h m) t"
    by blast
  have keep: "\<forall>r\<in>set trs. r < n \<and> loadTrade h1 r = loadTrade h r \<and> (\<exists>t. loadTrade h r = Some t)"
  proof
    fix r assume "r \<in> set trs"
    with Cons.prems(2) obtain t' where r: "r < n" "loadTrade h r = Some t'"
      by auto
    then have "h1 ! r = h ! r"
      using old_cell [OF h1(3)] by simp
    with r h1(4) Cons.prems(3)
    show "r < n \<and> loadTrade h1 r = loadTrade h r \<and> (\<exists>t. loadTrade h r = Some t)"
      by (simp add: loadTrade_def loadCell_def)
  qed
  then have trs1: "\<forall>r\<in>set trs. r < n \<and> (\<exists>t. loadTrade h1 r = Some t)"
    by auto
  have vals: "map (\<lambda>r. the (loadTrade h1 r)) trs = map (\<lambda>r. the (loadTrade h r)) trs"
    using keep by simp
  have n1: "n \<le> length h1"
    using h1(4) Cons.prems(3) by simp
  from Cons.IH [OF h1(2) trs1 n1] h1(6) obtain h' m' where
    h': "processTradesStore h1 pm trs = Some h'" "mapInvariant n h' pm"
        "take n h' = take n h1" "length h1 \<le> length h'"
        "loadObjectMap h' pm = Some m'"
        "positionMapOf h' m' =
           processTrades (positionMapOf h1 m1) (map (\<lambda>r. the (loadTrade h1 r)) trs)"
    by auto
  have "positionMapOf h' m' =
          processTrades (positionMapOf h m) (map (\<lambda>r. the (loadTrade h r)) (tr # trs))"
    using h'(6) h1(7) t by (simp add: vals)
  with h1 h' show ?case
    by simp
qed

lemma emitPositionsStore_run:
  assumes "\<forall>(code, r)\<in>set m. r \<noteq> positions \<and> r < length h \<and> (\<exists>d. h ! r = DataCell d)"
      and "positions < length h" and "h ! positions = ArrayCell ps"
      and "\<forall>p\<in>set ps. n \<le> p \<and> p \<noteq> positions \<and> p < length h \<and> (\<exists>v. h ! p = PositionCell v)"
      and "n \<le> positions"
  shows "\<exists>h' ps'. emitPositionsStore h currentPrices positions m = Some h' \<and>
           take n h' = take n h \<and> length h \<le> length h' \<and>
           h' ! positions = ArrayCell ps' \<and>
           (\<forall>p\<in>set ps'. n \<le> p \<and> p \<noteq> positions \<and> p < length h' \<and> (\<exists>v. h' ! p = PositionCell v)) \<and>
           map (\<lambda>p. h' ! p) ps' =
             map (\<lambda>p. h ! p) ps @ map PositionCell (emitPositions currentPrices (positionMapOf h m))"
  using assms
proof (induction m arbitrary: h ps)
  case Nil
  then show ?case by (simp add: positionMapOf_def)
next
  case (Cons entry m)
  obtain code r where entry: "entry = (code, r)" by (cases entry)
  from Cons.prems(1) entry obtain d where
    r: "r \<noteq> positions" "r < length h" "h ! r = DataCell d"
    by auto
  have ld: "loadData h r = Some d"
    using r by (simp add: loadData_iff)
  have rest: "\<forall>(code, r)\<in>set m. r \<noteq> positions \<and> r < length h \<and> (\<exists>d. h ! r = DataCell d)"
    using Cons.prems(1) by simp
  have pm_cons: "positionMapOf h (entry # m) = (code, d) # positionMapOf h m"
    using ld entry by (simp add: positionMapOf_def)
  show ?case
  proof (cases "PositionData.totalQuantity d \<le> 0")
    case True
    from Cons.IH [OF rest Cons.prems(2,3,4,5)] True ld entry pm_cons show ?thesis
      by simp
  next
    case False
    let ?v = "toPosition currentPrices code d"
    let ?p = "length h"
    let ?h1 = "h @ [PositionCell ?v]"
    let ?h2 = "?h1[positions := ArrayCell (ps @ [?p])]"
    have la: "loadArray ?h1 positions = Some ps"
      using Cons.prems(2,3) by (simp add: loadArray_iff nth_append)
    have step: "emitPositionsStore h currentPrices positions (entry # m) =
                  emitPositionsStore ?h2 currentPrices positions m"
      using ld False la entry by (simp add: alloc_def storeCell_def)
    have rest2: "\<forall>(code, r)\<in>set m. r \<noteq> positions \<and> r < length ?h2 \<and> (\<exists>d. ?h2 ! r = DataCell d)"
      using rest by (auto simp: nth_append)
    have a: "positions < length ?h2" using Cons.prems(2) by simp
    have b: "?h2 ! positions = ArrayCell (ps @ [?p])" using Cons.prems(2) by simp
    have c: "\<forall>p\<in>set (ps @ [?p]). n \<le> p \<and> p \<noteq> positions \<and> p < length ?h2 \<and>
               (\<exists>v. ?h2 ! p = PositionCell v)"
      using Cons.prems(2,4,5) by (auto simp: nth_append)
    from Cons.IH [OF rest2 a b c Cons.prems(5)] obtain h' ps' where
      h': "emitPositionsStore ?h2 currentPrices positions m = Some h'"
          "take n h' = take n ?h2" "length ?h2 \<le> length h'"
          "h' ! positions = ArrayCell ps'"
          "\<forall>p\<in>set ps'. n \<le> p \<and> p \<noteq> positions \<and> p < length h' \<and> (\<exists>v. h' ! p = PositionCell v)"
          "map (\<lambda>p. h' ! p) ps' =
             map (\<lambda>p. ?h2 ! p) (ps @ [?p]) @
             map PositionCell (emitPositions currentPrices (positionMapOf ?h2 m))"
      by blast
    have same_data: "positionMapOf ?h2 m = positionMapOf h m"
      unfolding positionMapOf_def using rest
      by (intro map_cong) (auto simp: loadData_def loadCell_def nth_append)
    have old_ps: "map (\<lambda>p. ?h2 ! p) ps = map (\<lambda>p. h ! p) ps"
      using Cons.prems(4) by (intro map_cong) (auto simp: nth_append)
    have new_p: "?h2 ! ?p = PositionCell ?v"
      using Cons.prems(2) by simp
    have "map (\<lambda>p. h' ! p) ps' =
            map (\<lambda>p. h ! p) ps @
            map PositionCell (emitPositions currentPrices (positionMapOf h (entry # m)))"
      using h'(6) False by (simp add: same_data old_ps new_p pm_cons)
    moreover have "take n ?h2 = take n h"
      using Cons.prems(2,5) by simp
    ultimately show ?thesis
      using h' step by auto
  qed
qed

lemma calculatePositionsStore_correct:
  assumes "loadArray h trades = Some refs" and "\<forall>r\<in>set refs. loadTrade h r \<noteq> None"
      and "loadPriceMap h currentPrices = Some prices"
  shows "\<exists>h' positions ps.
           calculatePositionsStore getTime h trades currentPrices = Some (h', positions) \<and>
           take (length h) h' = h \<and> length h \<le> positions \<and>
           loadArray h' positions = Some ps \<and> (\<forall>p\<in>set ps. length h \<le> p) \<and>
           map (\<lambda>p. h' ! p) ps =
             map PositionCell
               (calculatePositions getTime (map (\<lambda>r. the (loadTrade h r)) refs) (map_of prices))"
proof -
  let ?n = "length h"
  let ?h1 = "h @ [ObjectMapCell []]"
  let ?F = "\<lambda>r. the (loadTrade h r)"
  have old: "\<forall>r\<in>set refs. r < ?n \<and> (\<exists>t. h ! r = TradeCell t)"
    using assms(2) by (auto simp: loadTrade_iff)
  have refs1: "loadArray ?h1 trades = Some refs"
    using assms(1) by (simp add: loadArray_iff nth_append)
  have trs1: "\<forall>r\<in>set refs. loadTrade ?h1 r \<noteq> None"
    using old by (auto simp: loadTrade_iff nth_append)
  have F1: "\<forall>r\<in>set refs. the (loadTrade ?h1 r) = ?F r"
    using old by (auto simp: loadTrade_def loadCell_def nth_append)
  from sortedCopy_values [OF refs1 trs1, of getTime] obtain sorted where
    sorted: "sortedCopy getTime ?h1 trades = Some (?h1 @ [ArrayCell sorted], sorted)"
      "set sorted = set refs"
      "map (\<lambda>r. the (loadTrade ?h1 r)) sorted =
         sortTrades getTime (map (\<lambda>r. the (loadTrade ?h1 r)) refs)"
    by blast
  let ?h2 = "?h1 @ [ArrayCell sorted]"
  have F2: "\<forall>r\<in>set refs. the (loadTrade ?h2 r) = ?F r"
    using old by (auto simp: loadTrade_def loadCell_def nth_append)
  have vals: "map (\<lambda>r. the (loadTrade ?h2 r)) sorted = sortTrades getTime (map ?F refs)"
  proof -
    have "map (\<lambda>r. the (loadTrade ?h2 r)) sorted = map (\<lambda>r. the (loadTrade ?h1 r)) sorted"
      using F1 F2 sorted(2) by (intro map_cong) auto
    also have "\<dots> = sortTrades getTime (map (\<lambda>r. the (loadTrade ?h1 r)) refs)"
      by (rule sorted(3))
    also have "map (\<lambda>r. the (loadTrade ?h1 r)) refs = map ?F refs"
      using F1 by (intro map_cong) auto
    finally show ?thesis .
  qed
  have inv2: "mapInvariant ?n ?h2 ?n"
    unfolding mapInvariant_iff by (simp add: nth_append)
  have lm2: "loadObjectMap ?h2 ?n = Some []"
    by (simp add: loadObjectMap_iff nth_append)
  have trs2: "\<forall>r\<in>set sorted. r < ?n \<and> (\<exists>t. loadTrade ?h2 r = Some t)"
    using old sorted(2) by (auto simp: loadTrade_iff nth_append)
  from processTradesStore_run [OF inv2 trs2] lm2 obtain h3 m where
    h3: "processTradesStore ?h2 ?n sorted = Some h3" "mapInvariant ?n h3 ?n"
        "take ?n h3 = take ?n ?h2" "length ?h2 \<le> length h3"
        "loadObjectMap h3 ?n = Some m"
        "positionMapOf h3 m =
           processTrades (positionMapOf ?h2 []) (map (\<lambda>r. the (loadTrade ?h2 r)) sorted)"
    by auto
  have abs3: "positionMapOf h3 m = processTrades [] (sortTrades getTime (map ?F refs))"
    using h3(6) by (simp only: vals) (simp add: positionMapOf_def)
  from h3(2,5) have m: "?n < length h3" "h3 ! ?n = ObjectMapCell m"
      "\<forall>(code, r)\<in>set m. ?n < r \<and> r < length h3 \<and> (\<exists>d. h3 ! r = DataCell d)"
    unfolding mapInvariant_iff by (auto simp: loadObjectMap_iff)
  have t3: "take ?n h3 = h"
    using h3(3) by simp
  let ?positions = "length h3"
  let ?h4 = "h3 @ [ArrayCell []]"
  have pr: "currentPrices < ?n" "h ! currentPrices = PriceMapCell prices"
    using assms(3) by (simp_all add: loadPriceMap_iff)
  have "h3 ! currentPrices = h ! currentPrices"
    using old_cell [of ?n h3 h currentPrices] t3 pr(1) by simp
  then have lp: "loadPriceMap ?h4 currentPrices = Some prices"
    using pr h3(4) by (simp add: loadPriceMap_iff nth_append)
  have lm: "loadObjectMap ?h4 ?n = Some m"
    using m(1,2) by (simp add: loadObjectMap_iff nth_append)
  have data: "\<forall>(code, r)\<in>set m. r \<noteq> ?positions \<and> r < length ?h4 \<and> (\<exists>d. ?h4 ! r = DataCell d)"
    using m(3) by (auto simp: nth_append)
  have same_data: "positionMapOf ?h4 m = positionMapOf h3 m"
    unfolding positionMapOf_def using m(3)
    by (intro map_cong) (auto simp: loadData_def loadCell_def nth_append)
  have e1: "?positions < length ?h4" by simp
  have e2: "?h4 ! ?positions = ArrayCell []" by simp
  have e3: "\<forall>p\<in>set []. ?n \<le> p \<and> p \<noteq> ?positions \<and> p < length ?h4 \<and> (\<exists>v. ?h4 ! p = PositionCell v)"
    by simp
  have e4: "?n \<le> ?positions" using m(1) by simp
  from emitPositionsStore_run [OF data e1 e2 e3 e4, of "map_of prices"] obtain h5 ps where
    h5: "emitPositionsStore ?h4 (map_of prices) ?positions m = Some h5"
        "take ?n h5 = take ?n ?h4" "length ?h4 \<le> length h5"
        "h5 ! ?positions = ArrayCell ps"
        "\<forall>p\<in>set ps. ?n \<le> p \<and> p \<noteq> ?positions \<and> p < length h5 \<and> (\<exists>v. h5 ! p = PositionCell v)"
        "map (\<lambda>p. h5 ! p) ps =
           map (\<lambda>p. ?h4 ! p) [] @
           map PositionCell (emitPositions (map_of prices) (positionMapOf ?h4 m))"
    by blast
  have run: "calculatePositionsStore getTime h trades currentPrices = Some (h5, ?positions)"
    using sorted(1) h3(1) lp lm h5(1)
    by (simp add: calculatePositionsStore_def alloc_def)
  have "take ?n h5 = h"
    using h5(2) t3 m(1) by simp
  moreover have "loadArray h5 ?positions = Some ps"
    using h5(3,4) by (simp add: loadArray_iff)
  moreover have "map (\<lambda>p. h5 ! p) ps =
      map PositionCell (calculatePositions getTime (map ?F refs) (map_of prices))"
    using h5(6) by (simp add: same_data abs3 calculatePositions_def)
  ultimately show ?thesis
    using run e4 h5(5) by blast
qed

lemma analysisInvariant_iff:
  "analysisInvariant n h pa sm \<longleftrightarrow>
     (n \<le> pa \<and> pa < sm \<and> sm < length h \<and>
      (\<exists>ps. h ! pa = ArrayCell ps \<and>
            (\<forall>p\<in>set ps. sm < p \<and> p < length h \<and> (\<exists>v. h ! p = PointCell v))) \<and>
      (\<exists>m. h ! sm = ObjectMapCell m \<and> distinct (map fst m) \<and> distinct (map snd m) \<and>
           (\<forall>(code, r)\<in>set m. sm < r \<and> r < length h \<and> (\<exists>i. h ! r = InventoryCell i))))"
  (is "?L \<longleftrightarrow> ?R")
proof
  assume ?L
  then obtain ps m where a: "n \<le> pa" "pa < sm" "loadArray h pa = Some ps"
      "list_all (\<lambda>p. sm < p \<and> loadPoint h p \<noteq> None) ps" "loadObjectMap h sm = Some m"
      "distinct (map fst m)" "distinct (map snd m)"
      "list_all (\<lambda>(code, r). sm < r \<and> loadInventory h r \<noteq> None) m"
    by (auto simp: analysisInvariant_def split: option.splits)
  have "\<forall>(code, r)\<in>set m. sm < r \<and> r < length h \<and> (\<exists>i. h ! r = InventoryCell i)"
    using a(8) by (auto simp: list_all_iff loadInventory_iff)
  moreover have "\<forall>p\<in>set ps. sm < p \<and> p < length h \<and> (\<exists>v. h ! p = PointCell v)"
    using a(4) by (auto simp: list_all_iff loadPoint_iff)
  ultimately show ?R
    using a(1,2,3,5,6,7) by (auto simp: loadArray_iff loadObjectMap_iff)
next
  assume ?R
  then obtain ps m where a: "n \<le> pa" "pa < sm" "sm < length h"
      "h ! pa = ArrayCell ps" "\<forall>p\<in>set ps. sm < p \<and> p < length h \<and> (\<exists>v. h ! p = PointCell v)"
      "h ! sm = ObjectMapCell m" "distinct (map fst m)" "distinct (map snd m)"
      "\<forall>(code, r)\<in>set m. sm < r \<and> r < length h \<and> (\<exists>i. h ! r = InventoryCell i)"
    by blast
  have "loadArray h pa = Some ps"
    using a(2,3,4) by (simp add: loadArray_iff)
  moreover have "loadObjectMap h sm = Some m"
    using a(3,6) by (simp add: loadObjectMap_iff)
  moreover have "list_all (\<lambda>(code, r). sm < r \<and> loadInventory h r \<noteq> None) m"
    using a(9) by (fastforce simp: list_all_iff loadInventory_iff)
  moreover have "list_all (\<lambda>p. sm < p \<and> loadPoint h p \<noteq> None) ps"
    using a(5) by (fastforce simp: list_all_iff loadPoint_iff)
  ultimately show ?L
    using a(1,2,7,8) by (simp add: analysisInvariant_def)
qed

lemma map_of_inventoryMapOf:
  "map_of (inventoryMapOf h m) k = map_option (\<lambda>r. the (loadInventory h r)) (map_of m k)"
  unfolding inventoryMapOf_def by (induction m) auto

lemma analyzeTradeStore_step:
  assumes inv: "analysisInvariant n h pa sm"
      and tr: "loadTrade h tr = Some t"
  shows "\<exists>h' c' ps m ps' m'. analyzeTradeStore h pa sm c tr = Some (h', c') \<and>
           analysisInvariant n h' pa sm \<and> take n h' = take n h \<and> length h \<le> length h' \<and>
           loadArray h pa = Some ps \<and> loadObjectMap h sm = Some m \<and>
           loadArray h' pa = Some ps' \<and> loadObjectMap h' sm = Some m' \<and>
           analysisStateOf h' ps' m' c' = analyzeTrade (analysisStateOf h ps m c) t"
proof -
  from inv obtain ps m where a: "n \<le> pa" "pa < sm" "sm < length h"
      "h ! pa = ArrayCell ps" "\<forall>p\<in>set ps. sm < p \<and> p < length h \<and> (\<exists>v. h ! p = PointCell v)"
      "h ! sm = ObjectMapCell m" "distinct (map fst m)" "distinct (map snd m)"
      "\<forall>(code, r)\<in>set m. sm < r \<and> r < length h \<and> (\<exists>i. h ! r = InventoryCell i)"
    unfolding analysisInvariant_iff by blast
  have lm: "loadObjectMap h sm = Some m"
    using a(3,6) by (simp add: loadObjectMap_iff)
  have la0: "loadArray h pa = Some ps"
    using a(2,3,4) by (simp add: loadArray_iff)
  let ?k = "Trade.stockCode t"
  let ?i = "getInventory (inventoryMapOf h m) t"
  obtain i' tp c' where upd: "updateInventory ?i c t = (i', tp, c')"
    by (cases "updateInventory ?i c t") auto
  have pure: "analyzeTrade (analysisStateOf h ps m c) t =
      \<lparr> points = map (\<lambda>p. the (loadPoint h p)) ps @ [newPoint t tp c'],
        currentCumulativeCost = c',
        stockInventory = AList.update ?k i' (inventoryMapOf h m) \<rparr>"
    using upd by (simp add: analyzeTrade_def analysisStateOf_def)
  obtain h1 e m' where
    look: "(case map_of m ?k of Some i \<Rightarrow> (h, i) | None \<Rightarrow> alloc h (InventoryCell newInventory))
             = (h1, e)"
    and h1: "length h \<le> length h1" "take (length h) h1 = h"
    and e: "sm < e" "e < length h1" "h1 ! e = InventoryCell ?i"
    and m': "AList.update ?k e m = m'" "distinct (map fst m')" "distinct (map snd m')"
      "\<forall>(code, r)\<in>set m'. sm < r \<and> r < length h1 \<and> (\<exists>i. h1 ! r = InventoryCell i)"
    and abs: "map (\<lambda>(code, r). (code, if r = e then i' else the (loadInventory h1 r))) m' =
                AList.update ?k i' (inventoryMapOf h m)"
  proof (cases "map_of m ?k")
    case (Some r)
    then have in_m: "(?k, r) \<in> set m" by (rule map_of_SomeD)
    with a(9) obtain i where r: "sm < r" "r < length h" "h ! r = InventoryCell i"
      by blast
    have li: "loadInventory h r = Some i"
      using r by (simp add: loadInventory_iff)
    have gi: "?i = i"
      using Some li by (simp add: getInventory_def map_of_inventoryMapOf)
    have "map (\<lambda>(code, r'). (code, if r' = r then i' else the (loadInventory h r'))) m =
            AList.update ?k i' (inventoryMapOf h m)"
      unfolding inventoryMapOf_def by (rule map_entries_replace [OF a(7,8) in_m])
    with Some r gi a(7,8,9) show ?thesis
      by (intro that [of h r m]) (simp_all add: update_triv)
  next
    case None
    have absent: "?k \<notin> fst ` set m"
      using None by (simp add: map_of_eq_None_iff)
    have gi: "?i = newInventory"
      using None by (simp add: getInventory_def map_of_inventoryMapOf)
    let ?h1 = "h @ [InventoryCell newInventory]"
    have fresh: "length h \<notin> snd ` set m"
      using a(9) by fastforce
    have same: "\<forall>(code, r)\<in>set m. r \<noteq> length h \<and> loadInventory ?h1 r = loadInventory h r"
      using a(9) by (auto simp: loadInventory_def loadCell_def nth_append)
    have "map (\<lambda>(code, r). (code, if r = length h then i' else the (loadInventory ?h1 r)))
            (m @ [(?k, length h)]) = inventoryMapOf h m @ [(?k, i')]"
      unfolding inventoryMapOf_def using same by (auto intro!: map_cong)
    also have "\<dots> = AList.update ?k i' (inventoryMapOf h m)"
    proof -
      have "?k \<notin> fst ` set (inventoryMapOf h m)"
        using absent by (force simp: inventoryMapOf_def)
      then show ?thesis by (simp add: update_absent)
    qed
    finally have abs: "map (\<lambda>(code, r). (code, if r = length h then i' else the (loadInventory ?h1 r)))
            (m @ [(?k, length h)]) = AList.update ?k i' (inventoryMapOf h m)" .
    have ents: "\<forall>(code, r)\<in>set (m @ [(?k, length h)]).
                  sm < r \<and> r < length ?h1 \<and> (\<exists>i. ?h1 ! r = InventoryCell i)"
      using a(3,9) by (auto simp: nth_append)
    show ?thesis
      using None a(3,7,8) gi absent fresh abs ents
      by (intro that [of ?h1 "length h" "m @ [(?k, length h)]"])
         (simp_all add: alloc_def update_absent)
  qed
  have old1: "\<And>r. r < length h \<Longrightarrow> h1 ! r = h ! r"
    using old_cell [OF _ _, of "length h" h1 h] h1(2) by simp
  let ?h2 = "h1[e := InventoryCell i']"
  let ?h3 = "?h2[sm := ObjectMapCell m']"
  let ?point = "length h1"
  let ?h4 = "?h3 @ [PointCell (newPoint t tp c')]"
  let ?h5 = "?h4[pa := ArrayCell (ps @ [?point])]"
  define h5 where "h5 = ?h5"
  have li: "loadInventory h1 e = Some ?i"
    using e by (simp add: loadInventory_iff)
  have lm2: "loadObjectMap ?h2 sm = Some m"
    using a(3,6) e(1) h1(1) old1 [of sm] by (simp add: loadObjectMap_iff)
  have la: "loadArray ?h4 pa = Some ps"
    using a(2,3,4) e(1) h1(1) old1 [of pa] by (simp add: loadArray_iff nth_append)
  have run: "analyzeTradeStore h pa sm c tr = Some (h5, c')"
    unfolding h5_def
    using tr lm look li upd lm2 la m'(1)
    by (simp add: analyzeTradeStore_def storeCell_def alloc_def)
  have len5: "length h5 = Suc (length h1)"
    unfolding h5_def by simp
  have cell5: "\<And>r. r < length h1 \<Longrightarrow> r \<noteq> e \<Longrightarrow> r \<noteq> sm \<Longrightarrow> r \<noteq> pa \<Longrightarrow> h5 ! r = h1 ! r"
    unfolding h5_def by (simp add: nth_append)
  have e5: "h5 ! e = InventoryCell i'"
    unfolding h5_def using e(1,2) a(2) by (simp add: nth_append)
  have sm5: "h5 ! sm = ObjectMapCell m'"
    unfolding h5_def using a(2,3) h1(1) by (simp add: nth_append)
  have pa5: "h5 ! pa = ArrayCell (ps @ [?point])"
    unfolding h5_def using a(2,3) h1(1) by simp
  have pt5: "h5 ! ?point = PointCell (newPoint t tp c')"
    unfolding h5_def using a(2,3) h1(1) by (simp add: nth_append)
  have ents: "\<forall>(code, r)\<in>set m'. sm < r \<and> r < length h5 \<and> (\<exists>i. h5 ! r = InventoryCell i)"
  proof (clarify)
    fix code r assume "(code, r) \<in> set m'"
    with m'(4) have r: "sm < r" "r < length h1" "\<exists>i. h1 ! r = InventoryCell i"
      by auto
    show "sm < r \<and> r < length h5 \<and> (\<exists>i. h5 ! r = InventoryCell i)"
    proof (cases "r = e")
      case True
      with r e5 len5 show ?thesis by simp
    next
      case False
      with r a(2) cell5 [of r] len5 show ?thesis by simp
    qed
  qed
  have old_pts: "\<forall>p\<in>set ps. sm < p \<and> p < length h1 \<and> p \<noteq> e \<and> (\<exists>v. h1 ! p = PointCell v)"
  proof
    fix p assume "p \<in> set ps"
    with a(5) obtain v where p: "sm < p" "p < length h" "h ! p = PointCell v"
      by blast
    then have "h1 ! p = PointCell v"
      using old1 by simp
    with p h1(1) e(3) show "sm < p \<and> p < length h1 \<and> p \<noteq> e \<and> (\<exists>v. h1 ! p = PointCell v)"
      by auto
  qed
  have pts: "\<forall>p\<in>set (ps @ [?point]). sm < p \<and> p < length h5 \<and> (\<exists>v. h5 ! p = PointCell v)"
  proof
    fix p assume "p \<in> set (ps @ [?point])"
    then consider "p \<in> set ps" | "p = ?point" by auto
    then show "sm < p \<and> p < length h5 \<and> (\<exists>v. h5 ! p = PointCell v)"
    proof cases
      case 1
      with old_pts have "sm < p" "p < length h1" "p \<noteq> e" "\<exists>v. h1 ! p = PointCell v"
        by auto
      with a(2) cell5 [of p] len5 show ?thesis by simp
    next
      case 2
      with pt5 len5 a(3) h1(1) show ?thesis by simp
    qed
  qed
  have inv5: "analysisInvariant n h5 pa sm"
    unfolding analysisInvariant_iff
    using a(1,2,3) h1(1) len5 pa5 pts sm5 m'(2,3) ents by auto
  have frame: "take n h5 = take n h"
  proof -
    have "take n h5 = take n h1"
      unfolding h5_def using a(1,2,3) e(1) h1(1) by simp
    also have "\<dots> = take n (take (length h) h1)"
      using a(1,2,3) by (simp add: min_def)
    also have "\<dots> = take n h"
      by (simp only: h1(2))
    finally show ?thesis .
  qed
  have la5: "loadArray h5 pa = Some (ps @ [?point])"
    using pa5 a(2,3) h1(1) len5 by (simp add: loadArray_iff)
  have lm5: "loadObjectMap h5 sm = Some m'"
    using sm5 a(3) h1(1) len5 by (simp add: loadObjectMap_iff)
  have points5: "map (\<lambda>p. the (loadPoint h5 p)) (ps @ [?point]) =
                   map (\<lambda>p. the (loadPoint h p)) ps @ [newPoint t tp c']"
  proof -
    have "\<forall>p\<in>set ps. the (loadPoint h5 p) = the (loadPoint h p)"
    proof
      fix p assume "p \<in> set ps"
      with old_pts a(5) have p: "sm < p" "p < length h1" "p \<noteq> e" "p < length h"
        by auto
      then have "h5 ! p = h ! p"
        using cell5 [of p] old1 [of p] a(2) by simp
      with p len5 show "the (loadPoint h5 p) = the (loadPoint h p)"
        by (simp add: loadPoint_def loadCell_def)
    qed
    moreover have "the (loadPoint h5 ?point) = newPoint t tp c'"
      using pt5 len5 by (simp add: loadPoint_def loadCell_def)
    ultimately show ?thesis by simp
  qed
  have inv5_map: "inventoryMapOf h5 m' = AList.update ?k i' (inventoryMapOf h m)"
  proof -
    have "\<forall>(code, r)\<in>set m'. the (loadInventory h5 r) =
            (if r = e then i' else the (loadInventory h1 r))"
    proof (clarify)
      fix code r assume "(code, r) \<in> set m'"
      with m'(4) have r: "sm < r" "r < length h1"
        by auto
      show "the (loadInventory h5 r) = (if r = e then i' else the (loadInventory h1 r))"
      proof (cases "r = e")
        case True
        with e5 e(2) len5 show ?thesis by (simp add: loadInventory_def loadCell_def)
      next
        case False
        with r a(2) cell5 [of r] len5 show ?thesis
          by (simp add: loadInventory_def loadCell_def)
      qed
    qed
    then have "inventoryMapOf h5 m' =
        map (\<lambda>(code, r). (code, if r = e then i' else the (loadInventory h1 r))) m'"
      unfolding inventoryMapOf_def by (intro map_cong) auto
    with abs show ?thesis by simp
  qed
  have "analysisStateOf h5 (ps @ [?point]) m' c' =
          \<lparr> points = map (\<lambda>p. the (loadPoint h5 p)) (ps @ [?point]),
            currentCumulativeCost = c',
            stockInventory = inventoryMapOf h5 m' \<rparr>"
    by (simp only: analysisStateOf_def)
  also have "\<dots> = analyzeTrade (analysisStateOf h ps m c) t"
    by (simp only: points5 inv5_map pure)
  finally have "analysisStateOf h5 (ps @ [?point]) m' c' =
                  analyzeTrade (analysisStateOf h ps m c) t" .
  moreover have "length h \<le> length h5"
    using h1(1) len5 by simp
  ultimately show ?thesis
    using run inv5 frame la0 lm la5 lm5 by blast
qed

lemma analyzeTradesStore_run:
  assumes "analysisInvariant n h pa sm"
      and "\<forall>r\<in>set trs. r < n \<and> (\<exists>t. loadTrade h r = Some t)"
      and "n \<le> length h"
  shows "\<exists>h' ps m ps' m' c'. analyzeTradesStore h pa sm c trs = Some h' \<and>
           analysisInvariant n h' pa sm \<and> take n h' = take n h \<and> length h \<le> length h' \<and>
           loadArray h pa = Some ps \<and> loadObjectMap h sm = Some m \<and>
           loadArray h' pa = Some ps' \<and> loadObjectMap h' sm = Some m' \<and>
           analysisStateOf h' ps' m' c' =
             analyzeTrades (analysisStateOf h ps m c) (map (\<lambda>r. the (loadTrade h r)) trs)"
  using assms
proof (induction trs arbitrary: h c)
  case Nil
  then show ?case
    by (auto simp: analysisInvariant_def split: option.splits)
next
  case (Cons tr trs)
  from Cons.prems(2) obtain t where t: "loadTrade h tr = Some t"
    by auto
  from analyzeTradeStore_step [OF Cons.prems(1) t, of c] obtain h1 c1 ps m ps1 m1 where
    h1: "analyzeTradeStore h pa sm c tr = Some (h1, c1)" "analysisInvariant n h1 pa sm"
        "take n h1 = take n h" "length h \<le> length h1"
        "loadArray h pa = Some ps" "loadObjectMap h sm = Some m"
        "loadArray h1 pa = Some ps1" "loadObjectMap h1 sm = Some m1"
        "analysisStateOf h1 ps1 m1 c1 = analyzeTrade (analysisStateOf h ps m c) t"
    by blast
  have keep: "\<forall>r\<in>set trs. r < n \<and> loadTrade h1 r = loadTrade h r \<and> (\<exists>t. loadTrade h r = Some t)"
  proof
    fix r assume "r \<in> set trs"
    with Cons.prems(2) obtain t' where r: "r < n" "loadTrade h r = Some t'"
      by auto
    then have "h1 ! r = h ! r"
      using old_cell [OF h1(3)] by simp
    with r h1(4) Cons.prems(3)
    show "r < n \<and> loadTrade h1 r = loadTrade h r \<and> (\<exists>t. loadTrade h r = Some t)"
      by (simp add: loadTrade_def loadCell_def)
  qed
  then have trs1: "\<forall>r\<in>set trs. r < n \<and> (\<exists>t. loadTrade h1 r = Some t)"
    by auto
  have vals: "map (\<lambda>r. the (loadTrade h1 r)) trs = map (\<lambda>r. the (loadTrade h r)) trs"
    using keep by simp
  have n1: "n \<le> length h1"
    using h1(4) Cons.prems(3) by simp
  from Cons.IH [OF h1(2) trs1 n1, of c1] h1(7,8) obtain h' ps' m' c' where
    h': "analyzeTradesStore h1 pa sm c1 trs = Some h'" "analysisInvariant n h' pa sm"
        "take n h' = take n h1" "length h1 \<le> length h'"
        "loadArray h' pa = Some ps'" "loadObjectMap h' sm = Some m'"
        "analysisStateOf h' ps' m' c' =
           analyzeTrades (analysisStateOf h1 ps1 m1 c1) (map (\<lambda>r. the (loadTrade h1 r)) trs)"
    by auto
  have final: "analysisStateOf h' ps' m' c' =
          analyzeTrades (analysisStateOf h ps m c) (map (\<lambda>r. the (loadTrade h r)) (tr # trs))"
    using h'(7) h1(9) t by (simp add: vals)
  have run: "analyzeTradesStore h pa sm c (tr # trs) = Some h'"
    using h1(1) h'(1) by simp
  have fr: "take n h' = take n h" "length h \<le> length h'"
    using h'(3,4) h1(3,4) by simp_all
  show ?case
    using run h'(2) fr h1(5,6) h'(5,6) final by blast
qed

lemma analyzeTradeHistoryStore_correct:
  assumes "loadArray h trades = Some refs" and "\<forall>r\<in>set refs. loadTrade h r \<noteq> None"
  shows "\<exists>h' pointsRef ps.
           analyzeTradeHistoryStore getTime h trades = Some (h', pointsRef) \<and>
           take (length h) h' = h \<and> length h \<le> pointsRef \<and>
           loadArray h' pointsRef = Some ps \<and> (\<forall>p\<in>set ps. length h \<le> p) \<and>
           map (\<lambda>p. h' ! p) ps =
             map PointCell (analyzeTradeHistory getTime (map (\<lambda>r. the (loadTrade h r)) refs))"
proof -
  let ?n = "length h"
  let ?F = "\<lambda>r. the (loadTrade h r)"
  have old: "\<forall>r\<in>set refs. r < ?n \<and> (\<exists>t. h ! r = TradeCell t)"
    using assms(2) by (auto simp: loadTrade_iff)
  from sortedCopy_values [OF assms, of getTime] obtain sorted where
    sorted: "sortedCopy getTime h trades = Some (h @ [ArrayCell sorted], sorted)"
      "set sorted = set refs"
      "map ?F sorted = sortTrades getTime (map ?F refs)"
    by blast
  let ?h1 = "h @ [ArrayCell sorted]"
  let ?pa = "Suc ?n"
  let ?h2 = "?h1 @ [ArrayCell []]"
  let ?sm = "Suc (Suc ?n)"
  let ?h3 = "?h2 @ [ObjectMapCell []]"
  have F3: "\<forall>r\<in>set refs. the (loadTrade ?h3 r) = ?F r"
    using old by (auto simp: loadTrade_def loadCell_def nth_append)
  have vals: "map (\<lambda>r. the (loadTrade ?h3 r)) sorted = sortTrades getTime (map ?F refs)"
  proof -
    have "map (\<lambda>r. the (loadTrade ?h3 r)) sorted = map ?F sorted"
      using F3 sorted(2) by (intro map_cong) auto
    then show ?thesis by (simp only: sorted(3))
  qed
  have inv3: "analysisInvariant ?n ?h3 ?pa ?sm"
    unfolding analysisInvariant_iff by (simp add: nth_append)
  have la3: "loadArray ?h3 ?pa = Some []"
    by (simp add: loadArray_iff nth_append)
  have lm3: "loadObjectMap ?h3 ?sm = Some []"
    by (simp add: loadObjectMap_iff nth_append)
  have trs3: "\<forall>r\<in>set sorted. r < ?n \<and> (\<exists>t. loadTrade ?h3 r = Some t)"
    using old sorted(2) by (auto simp: loadTrade_iff nth_append)
  from analyzeTradesStore_run [OF inv3 trs3, of 0] la3 lm3 obtain h4 ps m c' where
    h4: "analyzeTradesStore ?h3 ?pa ?sm 0 sorted = Some h4" "analysisInvariant ?n h4 ?pa ?sm"
        "take ?n h4 = take ?n ?h3" "length ?h3 \<le> length h4"
        "loadArray h4 ?pa = Some ps" "loadObjectMap h4 ?sm = Some m"
        "analysisStateOf h4 ps m c' =
           analyzeTrades (analysisStateOf ?h3 [] [] 0) (map (\<lambda>r. the (loadTrade ?h3 r)) sorted)"
    by auto
  have init: "analysisStateOf ?h3 [] [] 0 = initialAnalysisState"
    by (simp add: analysisStateOf_def initialAnalysisState_def inventoryMapOf_def)
  have pts: "map (\<lambda>p. the (loadPoint h4 p)) ps =
               analyzeTradeHistory getTime (map ?F refs)"
  proof -
    have "map (\<lambda>p. the (loadPoint h4 p)) ps = points (analysisStateOf h4 ps m c')"
      by (simp add: analysisStateOf_def)
    also have "\<dots> = points (analyzeTrades initialAnalysisState (sortTrades getTime (map ?F refs)))"
      by (simp only: h4(7) init vals)
    finally show ?thesis by (simp add: analyzeTradeHistory_def)
  qed
  from h4(2,5) have cells: "\<forall>p\<in>set ps. ?sm < p \<and> p < length h4 \<and> (\<exists>v. h4 ! p = PointCell v)"
    unfolding analysisInvariant_iff by (auto simp: loadArray_iff)
  have "map (\<lambda>p. h4 ! p) ps = map PointCell (map (\<lambda>p. the (loadPoint h4 p)) ps)"
    using cells by (auto simp: loadPoint_def loadCell_def)
  then have res: "map (\<lambda>p. h4 ! p) ps =
                    map PointCell (analyzeTradeHistory getTime (map ?F refs))"
    by (simp only: pts)
  have run: "analyzeTradeHistoryStore getTime h trades = Some (h4, ?pa)"
    using sorted(1) h4(1) by (simp add: analyzeTradeHistoryStore_def alloc_def)
  have "take ?n h4 = h"
    using h4(3) by simp
  moreover have "\<forall>p\<in>set ps. ?n \<le> p"
    using cells by auto
  ultimately show ?thesis
    using run h4(5) res by auto
qed

lemma calculateTotalProfitLossStore_correct:
  assumes "loadArray h positions = Some refs" and "\<forall>r\<in>set refs. loadPosition h r \<noteq> None"
  shows "\<exists>h' totals.
           calculateTotalProfitLossStore h positions = Some (h', totals) \<and>
           take (length h) h' = h \<and> length h \<le> totals \<and>
           loadCell h' totals =
             Some (TotalsCell (calculateTotalProfitLoss (map (\<lambda>r. the (loadPosition h r)) refs)))"
proof -
  have "those (map (loadPosition h) refs) = Some (map (\<lambda>r. the (loadPosition h r)) refs)"
    using assms(2) by (rule those_map_Some)
  with assms(1) show ?thesis
    by (simp add: calculateTotalProfitLossStore_def alloc_def loadCell_def)
qed

text \<open>
  C9. Take any store in which \<open>trades\<close> is an array of trades, \<open>currentPrices\<close> a
  price map and \<open>positions\<close> an array of positions. Each of the three calls returns;
  every cell of the store before the call is in the store after it, unchanged (the input
  array, its trades, the price map, the positions and whatever earlier calls returned);
  the result and every object it refers to are new cells; and the values in them are those
  of the functions above. The sort works on the copy, and the records that the loops
  update are the ones the same call has made.
\<close>

theorem calls_leave_the_store_unchanged:
  "(loadArray h trades = Some tradeRefs \<and> (\<forall>r\<in>set tradeRefs. loadTrade h r \<noteq> None) \<and>
    loadPriceMap h currentPrices = Some prices \<longrightarrow>
      (\<exists>h' result ps.
         calculatePositionsStore getTime h trades currentPrices = Some (h', result) \<and>
         take (length h) h' = h \<and> length h \<le> result \<and>
         loadArray h' result = Some ps \<and> (\<forall>p\<in>set ps. length h \<le> p) \<and>
         map (\<lambda>p. h' ! p) ps =
           map PositionCell
             (calculatePositions getTime (map (\<lambda>r. the (loadTrade h r)) tradeRefs)
                (map_of prices)))) \<and>
   (loadArray h positions = Some positionRefs \<and>
    (\<forall>r\<in>set positionRefs. loadPosition h r \<noteq> None) \<longrightarrow>
      (\<exists>h' result.
         calculateTotalProfitLossStore h positions = Some (h', result) \<and>
         take (length h) h' = h \<and> length h \<le> result \<and>
         loadCell h' result =
           Some (TotalsCell
                  (calculateTotalProfitLoss (map (\<lambda>r. the (loadPosition h r)) positionRefs))))) \<and>
   (loadArray h trades = Some tradeRefs \<and> (\<forall>r\<in>set tradeRefs. loadTrade h r \<noteq> None) \<longrightarrow>
      (\<exists>h' result ps.
         analyzeTradeHistoryStore getTime h trades = Some (h', result) \<and>
         take (length h) h' = h \<and> length h \<le> result \<and>
         loadArray h' result = Some ps \<and> (\<forall>p\<in>set ps. length h \<le> p) \<and>
         map (\<lambda>p. h' ! p) ps =
           map PointCell
             (analyzeTradeHistory getTime (map (\<lambda>r. the (loadTrade h r)) tradeRefs))))"
  using calculatePositionsStore_correct [of h trades tradeRefs currentPrices prices getTime]
        calculateTotalProfitLossStore_correct [of h positions positionRefs]
        analyzeTradeHistoryStore_correct [of h trades tradeRefs getTime]
  by blast

theorem calls_leave_the_store_unchanged_witness:
  "loadArray exampleStore 2 = Some [0, 1] \<and>
   loadTrade exampleStore 0 = Some exampleSell \<and> loadTrade exampleStore 1 = Some exampleBuy \<and>
   loadPriceMap exampleStore 3 = Some [(''X'', 12)] \<and>
   loadArray exampleStore 6 = Some [4, 5] \<and>
   loadPosition exampleStore 4 = Some pricedPosition \<and>
   loadPosition exampleStore 5 = Some unpricedPosition \<and>
   (\<exists>h' result ps.
      calculatePositionsStore exampleTime exampleStore 2 3 = Some (h', result) \<and>
      take (length exampleStore) h' = exampleStore \<and> length exampleStore \<le> result \<and>
      loadArray h' result = Some ps \<and> list_all (\<lambda>p. length exampleStore \<le> p) ps \<and>
      map (\<lambda>p. h' ! p) ps =
        map PositionCell
          (calculatePositions exampleTime [exampleSell, exampleBuy] (map_of [(''X'', 12)]))) \<and>
   (\<exists>h' result.
      calculateTotalProfitLossStore exampleStore 6 = Some (h', result) \<and>
      take (length exampleStore) h' = exampleStore \<and> length exampleStore \<le> result \<and>
      loadCell h' result =
        Some (TotalsCell (calculateTotalProfitLoss [pricedPosition, unpricedPosition]))) \<and>
   (\<exists>h' result ps.
      analyzeTradeHistoryStore exampleTime exampleStore 2 = Some (h', result) \<and>
      take (length exampleStore) h' = exampleStore \<and> length exampleStore \<le> result \<and>
      loadArray h' result = Some ps \<and> list_all (\<lambda>p. length exampleStore \<le> p) ps \<and>
      map (\<lambda>p. h' ! p) ps =
        map PointCell (analyzeTradeHistory exampleTime [exampleSell, exampleBuy]))"
proof -
  have a: "loadArray exampleStore 2 = Some [0, 1]"
    and b: "loadTrade exampleStore 0 = Some exampleSell"
           "loadTrade exampleStore 1 = Some exampleBuy"
    and c: "loadPriceMap exampleStore 3 = Some [(''X'', 12)]"
    and d: "loadArray exampleStore 6 = Some [4, 5]"
    and e: "loadPosition exampleStore 4 = Some pricedPosition"
           "loadPosition exampleStore 5 = Some unpricedPosition"
    by (simp_all add: exampleStore_def loadArray_def loadTrade_def loadPriceMap_def
          loadPosition_def loadCell_def)
  show ?thesis
    using calls_leave_the_store_unchanged
            [of exampleStore 2 "[0, 1]" 3 "[(''X'', 12)]" exampleTime 6 "[4, 5]"]
          a b c d e
    by (simp add: list_all_iff)
qed

end
